(* ===== verification/Flow_Prelude.thy ===== *)
theory Flow_Prelude
  imports Main "HOL-Library.Word"
begin

text \<open>
  Shared vocabulary of the TurboFlow development.

  \<^item> The machine integers of the C sources: \<open>uint8_t\<close>, \<open>uint16_t\<close>, \<open>uint32_t\<close>,
    \<open>uint64_t\<close> and \<open>size_t\<close> are words of their width (the sources are built for
    64-bit targets, so \<open>SIZE_MAX\<close> is \<open>2 ^ 64 - 1\<close>); \<open>+\<close> and \<open>-\<close> wrap.
  \<^item> The result codes \<open>SALTS_*\<close>.  The header \<open>salts_error.h\<close> belongs to the Salts SDK
    and is not part of the repository; the sources rely only on \<open>SALTS_OK\<close> being distinct
    from every error and on the errors being pairwise distinct, which a datatype states.
    \<open>SALTS_OTHER\<close> is any further code a callback may return.
  \<^item> The leading \<open>size\<close> field of a public struct.  The sources only compare it with the
    compiled \<open>sizeof\<close>, so the model keeps the outcome of that comparison.
  \<^item> \<open>vstr\<close>, a borrowed byte view (data pointer and length).
  \<^item> List, counting and word lemmas used by several components.
\<close>

section \<open>Machine types and result codes\<close>

type_synonym u8 = "8 word"
type_synonym u16 = "16 word"
type_synonym u32 = "32 word"
type_synonym u64 = "64 word"
type_synonym size_t = "64 word"

abbreviation UINT64_MAX :: u64 where "UINT64_MAX \<equiv> - 1"
abbreviation SIZE_MAX :: size_t where "SIZE_MAX \<equiv> - 1"

datatype status =
    SALTS_OK | SALTS_EINVAL | SALTS_EPROTO | SALTS_ENOMEM | SALTS_EBUSY | SALTS_ERANGE
  | SALTS_ENOTSUP | SALTS_ENOENT | SALTS_EALREADY | SALTS_ENOSPC | SALTS_ESHUTDOWN | SALTS_EIO
  | SALTS_EMSGSIZE | SALTS_ECANCELED | SALTS_ETIMEDOUT | SALTS_ENAMETOOLONG | SALTS_ENOBUFS
  | SALTS_EPERM | SALTS_OTHER nat

datatype abi_size = ShortSize | ExactSize | LongSize

section \<open>Byte views\<close>

text \<open>
  A \<open>vstr\<close> whose data pointer is NULL still carries a length; a non-NULL one denotes the
  bytes it spans.
\<close>

datatype vstr = NullView size_t | View "u8 list"

fun vstr_len :: "vstr \<Rightarrow> size_t" where
  "vstr_len (NullView n) = n"
| "vstr_len (View bs) = of_nat (length bs)"

fun vstr_bytes :: "vstr \<Rightarrow> u8 list" where
  "vstr_bytes (NullView n) = []"
| "vstr_bytes (View bs) = bs"

fun vstr_data_null :: "vstr \<Rightarrow> bool" where
  "vstr_data_null (NullView n) = True"
| "vstr_data_null (View bs) = False"

section \<open>Collections of facts\<close>

named_theorems word_nat \<open>moving 64-bit counters to \<open>nat\<close>\<close>
named_theorems upd_nth \<open>list updates at one index\<close>

named_theorems guards \<open>chains of early returns that end in \<open>SALTS_OK\<close>\<close>

section \<open>Early returns\<close>

text \<open>
  A C function that succeeds has passed every guard: these rules turn
  \<open>f x = SALTS_OK\<close> (or a state paired with it) into the conjunction of the failed guards.
\<close>

lemma guard_status [guards]:
  "e \<noteq> SALTS_OK \<Longrightarrow> (if c then e else x) = SALTS_OK \<longleftrightarrow> \<not> c \<and> x = SALTS_OK"
  by simp

lemma guard_status_final [guards]:
  "e \<noteq> SALTS_OK \<Longrightarrow> (if c then SALTS_OK else e) = SALTS_OK \<longleftrightarrow> c"
  by simp

lemma guard_pass [guards]:
  "(if rc \<noteq> SALTS_OK then rc else x) = SALTS_OK \<longleftrightarrow> rc = SALTS_OK \<and> x = SALTS_OK"
  by simp

lemma guard_pair [guards]:
  "e \<noteq> SALTS_OK \<Longrightarrow> (if c then (s, e) else x) = (s', SALTS_OK) \<longleftrightarrow> \<not> c \<and> x = (s', SALTS_OK)"
  by simp

lemma guard_pair_pass [guards]:
  "(if rc \<noteq> SALTS_OK then (s, rc) else x) = (s', SALTS_OK) \<longleftrightarrow>
     rc = SALTS_OK \<and> x = (s', SALTS_OK)"
  by auto

section \<open>Words as bounded naturals\<close>

lemma unat_inc [word_nat]:
  fixes x :: u64
  assumes "x \<noteq> UINT64_MAX"
  shows "unat (x + 1) = Suc (unat x)"
  using assms by (metis add.commute add_eq_0_iff unatSuc)

lemma unat_dec [word_nat]:
  fixes x :: u64
  assumes "0 < unat x"
  shows "unat (x - 1) = unat x - 1"
  using assms by (simp add: unat_gt_0 unat_minus_one)

lemma unat_UINT64_MAX: "unat (UINT64_MAX) = 2 ^ 64 - 1"
  by (simp add: unsigned_minus_1_eq_mask mask_eq_exp_minus_1)

lemma unat_bound64: "unat (x :: u64) < 2 ^ 64"
  using unsigned_less [of x] by simp

lemma unat_inc_bounded [word_nat]:
  fixes x :: u64
  assumes "unat x < n" and "n < 2 ^ 64"
  shows "unat (x + 1) = Suc (unat x)"
proof -
  have "x \<noteq> UINT64_MAX" using assms unat_UINT64_MAX by auto
  then show ?thesis by (rule unat_inc)
qed

lemma unat_add_bounded [word_nat]:
  fixes x y :: u64
  assumes "unat x + unat y < 2 ^ 64"
  shows "unat (x + y) = unat x + unat y"
  using assms by (simp add: unat_word_ariths)

lemma unat_sub_le [word_nat]:
  fixes x y :: u64
  assumes "unat y \<le> unat x"
  shows "unat (x - y) = unat x - unat y"
  using assms by (simp add: unat_sub word_le_nat_alt)

lemma add_fits_iff:
  fixes x y :: u64
  shows "\<not> (x > SIZE_MAX - y) \<longleftrightarrow> unat x + unat y < 2 ^ 64"
proof -
  have "unat (SIZE_MAX - y) = 2 ^ 64 - 1 - unat y"
    using unat_bound64 [of y] by (subst unat_sub_le) (auto simp: unat_UINT64_MAX)
  then show ?thesis
    using unat_bound64 [of x] unat_bound64 [of y] by (simp add: word_less_nat_alt) linarith
qed

section \<open>Counting and summing over slots\<close>

definition count :: "('a \<Rightarrow> bool) \<Rightarrow> 'a list \<Rightarrow> nat" where
  "count P xs = length (filter P xs)"

lemma count_simps [simp]:
  "count P [] = 0"
  "count P (x # xs) = of_bool (P x) + count P xs"
  by (auto simp: count_def)

lemma count_append [simp]: "count P (xs @ ys) = count P xs + count P ys"
  by (simp add: count_def)

lemma count_replicate: "count P (replicate n x) = (if P x then n else 0)"
  by (induction n) auto

lemma count_le_length: "count P xs \<le> length xs"
  by (simp add: count_def)

lemma count_zero_iff: "count P xs = 0 \<longleftrightarrow> (\<forall>x \<in> set xs. \<not> P x)"
  by (auto simp: count_def filter_empty_conv)

lemma count_nth_pos: "i < length xs \<Longrightarrow> P (xs ! i) \<Longrightarrow> 0 < count P xs"
  by (metis count_zero_iff gr0I nth_mem)

lemma count_update [upd_nth]:
  "i < length xs \<Longrightarrow> count P (xs[i := y]) + of_bool (P (xs ! i)) = count P xs + of_bool (P y)"
proof (induction xs arbitrary: i)
  case (Cons x xs)
  then show ?case by (cases i) auto
qed simp

lemma count_disjoint_le:
  assumes "\<And>x. x \<in> set xs \<Longrightarrow> \<not> (P x \<and> Q x)"
  shows "count P xs + count Q xs \<le> length xs"
  using assms by (induction xs) auto

lemma count_less_lengthD: "count P xs < length xs \<Longrightarrow> \<exists>i < length xs. \<not> P (xs ! i)"
  by (metis count_def filter_True in_set_conv_nth less_irrefl)

lemma sum_list_update_nat [upd_nth]:
  fixes f :: "'a \<Rightarrow> nat"
  shows "i < length xs \<Longrightarrow>
    sum_list (map f (xs[i := y])) + f (xs ! i) = sum_list (map f xs) + f y"
proof (induction xs arbitrary: i)
  case (Cons x xs)
  then show ?case by (cases i) auto
qed simp

lemma sum_list_replicate_zero: "f x = (0 :: nat) \<Longrightarrow> sum_list (map f (replicate n x)) = 0"
  by (induction n) auto

lemma nth_le_sum_list:
  fixes f :: "'a \<Rightarrow> nat"
  shows "i < length xs \<Longrightarrow> f (xs ! i) \<le> sum_list (map f xs)"
  using sum_list_update_nat [of i xs f "xs ! i"] by (metis elem_le_sum_list length_map nth_map)

section \<open>Scanning a vector\<close>

text \<open>The index of the first element that satisfies a predicate: the \<open>for\<close> loops with
  \<open>break\<close> or \<open>return\<close> in the sources.\<close>

fun first_index :: "('a \<Rightarrow> bool) \<Rightarrow> 'a list \<Rightarrow> nat option" where
  "first_index P [] = None"
| "first_index P (x # xs) = (if P x then Some 0 else map_option Suc (first_index P xs))"

lemma first_index_SomeD:
  "first_index P xs = Some i \<Longrightarrow> i < length xs \<and> P (xs ! i) \<and> (\<forall>j < i. \<not> P (xs ! j))"
proof (induction xs arbitrary: i)
  case (Cons x xs)
  then show ?case
    by (auto split: if_splits simp: less_Suc_eq_0_disj)
qed simp

lemma first_index_None_iff: "first_index P xs = None \<longleftrightarrow> (\<forall>x \<in> set xs. \<not> P x)"
  by (induction xs) auto

lemma first_index_unique:
  assumes "i < length xs" and "P (xs ! i)"
    and "\<And>j. j < length xs \<Longrightarrow> P (xs ! j) \<Longrightarrow> j = i"
  shows "first_index P xs = Some i"
proof (cases "first_index P xs")
  case None
  with assms(1,2) show ?thesis by (auto simp: first_index_None_iff)
next
  case (Some j)
  with assms(3) show ?thesis by (auto dest: first_index_SomeD)
qed

end
