(* ===== verification/Flow_Content.thy ===== *)
theory Flow_Content
  imports Flow_Prelude
begin

text \<open>
  Content identity: the model of \<open>turbo_flow/src/flow_projection_registry.c\<close>.

  A content descriptor says what the payload bytes of a message are (domain, profile, encoding,
  media type, declared schema).  The theory holds the media-type normaliser, the descriptor
  operations, the projection registry that maps a descriptor to a registered schema, and the
  facts that make them correct: normalisation is a fixed point, every operation keeps a checked
  descriptor checked, registered keys stay distinct and a lookup after an insertion finds it.

  Fixed-size \<open>char\<close> arrays are lists whose length is the array's size; the C string stored in
  one is the part before the first NUL.  Pointers that may be NULL are options.  Allocation
  failures are parameters of \<open>turbo_flow_projection_registry_register\<close>.
\<close>

unbundle bit_operations_syntax

section \<open>C strings and character arrays\<close>

abbreviation NUL :: char where "NUL \<equiv> CHR 0x00"

definition cstr :: "char list \<Rightarrow> string" where
  "cstr a = takeWhile (\<lambda>c. c \<noteq> NUL) a"

lemma cstr_append_NUL: "cstr (cstr s @ NUL # t) = cstr s"
  by (induction s) (auto simp: cstr_def)

lemma cstr_idem [simp]: "cstr (cstr s) = cstr s"
  unfolding cstr_def takeWhile_eq_all_conv by (auto dest: set_takeWhileD)

lemma cstr_Nil_iff: "cstr a = [] \<longleftrightarrow> a = [] \<or> hd a = NUL"
  by (cases a) (auto simp: cstr_def)

text \<open>A pointer to a C string is usable when it is not NULL and its first character is not NUL.\<close>

definition str_given :: "string option \<Rightarrow> bool" where
  "str_given p = (case p of None \<Rightarrow> False | Some s \<Rightarrow> cstr s \<noteq> [])"

definition str_of :: "string option \<Rightarrow> string" where
  "str_of p = (case p of None \<Rightarrow> [] | Some s \<Rightarrow> cstr s)"

section \<open>Enumerations and descriptors\<close>

datatype turbo_flow_domain =
    DOMAIN_NONE | DOMAIN_DATA | DOMAIN_EXECUTION | DOMAIN_IO_TRANSPORT | DOMAIN_PROTOCOL_PATTERN
  | DOMAIN_BUFFER_PERSISTENCE | DOMAIN_RULES | DOMAIN_MANAGEMENT | DOMAIN_OUT_OF_RANGE nat

datatype content_profile =
    PROFILE_GENERIC | PROFILE_HTTP_REQUEST_BODY | PROFILE_HTTP_RESPONSE_BODY | PROFILE_S3_OBJECT
  | PROFILE_DATABASE_PARAMETERS | PROFILE_DATABASE_ROWSET | PROFILE_DATABASE_COMMAND_RESULT
  | PROFILE_PROTOCOL_DATA | PROFILE_PROTOCOL_CONTROL | PROFILE_MQTT_APPLICATION
  | PROFILE_MQTT_CONTROL | PROFILE_OUT_OF_RANGE nat

datatype data_encoding =
    ENCODING_TBE | ENCODING_JSON | ENCODING_CSV | ENCODING_XML | ENCODING_UTF8 | ENCODING_OPAQUE
  | ENCODING_OUT_OF_RANGE nat

definition CONTENT_SCHEMA_DECLARED :: u32 where "CONTENT_SCHEMA_DECLARED = 1"
definition CONTENT_BATCH :: u32 where "CONTENT_BATCH = 2"
definition CONTENT_PROTOCOL_CONTROL :: u32 where "CONTENT_PROTOCOL_CONTROL = 4"

definition CONTENT_MEDIA_TYPE_MAX :: nat where "CONTENT_MEDIA_TYPE_MAX = 127"
definition CONTENT_SCHEMA_NAME_MAX :: nat where "CONTENT_SCHEMA_NAME_MAX = 127"
definition CONTENT_TYPE_NAME_MAX :: nat where "CONTENT_TYPE_NAME_MAX = 127"
definition CONTENT_IDENTITY_MAX :: nat where "CONTENT_IDENTITY_MAX = 255"

lemmas content_consts =
  CONTENT_SCHEMA_DECLARED_def CONTENT_BATCH_def CONTENT_PROTOCOL_CONTROL_def
  CONTENT_MEDIA_TYPE_MAX_def CONTENT_SCHEMA_NAME_MAX_def CONTENT_TYPE_NAME_MAX_def
  CONTENT_IDENTITY_MAX_def

record content_descriptor =
  cd_size :: abi_size
  cd_domain :: turbo_flow_domain
  cd_profile :: content_profile
  cd_encoding :: data_encoding
  cd_flags :: u32
  cd_schema_version :: u32
  cd_media_type :: "char list"
  cd_schema_name :: "char list"
  cd_type_name :: "char list"
  cd_identity :: "char list"

text \<open>The array sizes of the struct.\<close>

definition descriptor_arrays :: "content_descriptor \<Rightarrow> bool" where
  "descriptor_arrays d \<longleftrightarrow>
     length (cd_media_type d) = CONTENT_MEDIA_TYPE_MAX + 1 \<and>
     length (cd_schema_name d) = CONTENT_SCHEMA_NAME_MAX + 1 \<and>
     length (cd_type_name d) = CONTENT_TYPE_NAME_MAX + 1 \<and>
     length (cd_identity d) = CONTENT_IDENTITY_MAX + 1"

definition zero_descriptor :: "abi_size \<Rightarrow> turbo_flow_domain \<Rightarrow> content_profile \<Rightarrow> data_encoding \<Rightarrow>
    content_descriptor" where
  "zero_descriptor sz dm prof enc =
     \<lparr>cd_size = sz, cd_domain = dm, cd_profile = prof, cd_encoding = enc, cd_flags = 0,
      cd_schema_version = 0,
      cd_media_type = replicate (CONTENT_MEDIA_TYPE_MAX + 1) NUL,
      cd_schema_name = replicate (CONTENT_SCHEMA_NAME_MAX + 1) NUL,
      cd_type_name = replicate (CONTENT_TYPE_NAME_MAX + 1) NUL,
      cd_identity = replicate (CONTENT_IDENTITY_MAX + 1) NUL\<rparr>"

definition CONTENT_DESCRIPTOR_INIT :: content_descriptor where
  "CONTENT_DESCRIPTOR_INIT = zero_descriptor ExactSize DOMAIN_DATA PROFILE_GENERIC ENCODING_OPAQUE"

section \<open>Media types\<close>

definition ascii_lower :: "char \<Rightarrow> char" where
  "ascii_lower c =
     (let a = (of_char c :: nat) in if 65 \<le> a \<and> a \<le> 90 then char_of (a + 32) else c)"

fun flow_content_ascii_iequal_n :: "char list \<Rightarrow> char list \<Rightarrow> nat \<Rightarrow> bool" where
  "flow_content_ascii_iequal_n left right 0 = True"
| "flow_content_ascii_iequal_n (a # left) (b # right) (Suc n) =
     (if ascii_lower a \<noteq> ascii_lower b then False else flow_content_ascii_iequal_n left right n)"
| "flow_content_ascii_iequal_n left right (Suc n) = False"

definition flow_content_media_equal :: "char list \<Rightarrow> nat \<Rightarrow> string \<Rightarrow> bool" where
  "flow_content_media_equal v len expected =
     (len = length expected \<and> flow_content_ascii_iequal_n v expected len)"

definition blank :: "char \<Rightarrow> bool" where
  "blank c \<longleftrightarrow> c = CHR 0x20 \<or> c = CHR 0x09"

text \<open>The text between the pointers \<open>begin\<close> and \<open>end\<close> after the three scanning loops.\<close>

definition media_token :: "string \<Rightarrow> string" where
  "media_token m =
     (let b = dropWhile blank (cstr m);
          e = takeWhile (\<lambda>c. c \<noteq> CHR '';'') b
      in rev (dropWhile blank (rev e)))"

definition turbo_flow_content_media_type_normalize ::
    "string option \<Rightarrow> status \<times> data_encoding \<times> string option" where
  "turbo_flow_content_media_type_normalize media_type =
     (case media_type of
        None \<Rightarrow> (SALTS_EINVAL, ENCODING_OPAQUE, None)
      | Some m \<Rightarrow>
          (let t = media_token m; len = length t in
           if flow_content_media_equal t len ''application/json''
           then (SALTS_OK, ENCODING_JSON, Some ''application/json'')
           else if flow_content_media_equal t len ''text/csv''
           then (SALTS_OK, ENCODING_CSV, Some ''text/csv'')
           else if flow_content_media_equal t len ''application/xml'' \<or>
                   flow_content_media_equal t len ''text/xml''
           then (SALTS_OK, ENCODING_XML, Some ''application/xml'')
           else if flow_content_media_equal t len ''text/plain''
           then (SALTS_OK, ENCODING_UTF8, Some ''text/plain'')
           else if flow_content_media_equal t len ''application/octet-stream''
           then (SALTS_OK, ENCODING_OPAQUE, Some ''application/octet-stream'')
           else if flow_content_media_equal t len ''application/vnd.tbe''
           then (SALTS_OK, ENCODING_TBE, Some ''application/vnd.tbe'')
           else if flow_content_media_equal t len ''application/vnd.turboflow.pg-rowset+json''
           then (SALTS_OK, ENCODING_JSON, Some ''application/vnd.turboflow.pg-rowset+json'')
           else if flow_content_media_equal t len ''application/vnd.turboflow.pg-command+json''
           then (SALTS_OK, ENCODING_JSON, Some ''application/vnd.turboflow.pg-command+json'')
           else (SALTS_ENOENT, ENCODING_OPAQUE, None)))"

section \<open>Descriptor operations\<close>

text \<open>\<open>flow_content_copy\<close>: the destination array comes back with the status.\<close>

definition flow_content_copy :: "char list \<Rightarrow> string option \<Rightarrow> char list \<times> status" where
  "flow_content_copy dst src =
     (if length dst = 0 then (dst, SALTS_EINVAL)
      else case src of
        None \<Rightarrow> (dst[0 := NUL], SALTS_OK)
      | Some s \<Rightarrow>
          (let len = length (cstr s) in
           if len \<ge> length dst then (dst, SALTS_ENOSPC)
           else (cstr s @ NUL # drop (Suc len) dst, SALTS_OK)))"

fun flow_content_profile_domain_valid :: "turbo_flow_domain \<Rightarrow> content_profile \<Rightarrow> bool" where
  "flow_content_profile_domain_valid dm PROFILE_GENERIC = (dm \<noteq> DOMAIN_NONE)"
| "flow_content_profile_domain_valid dm PROFILE_HTTP_REQUEST_BODY = (dm = DOMAIN_IO_TRANSPORT)"
| "flow_content_profile_domain_valid dm PROFILE_HTTP_RESPONSE_BODY = (dm = DOMAIN_IO_TRANSPORT)"
| "flow_content_profile_domain_valid dm PROFILE_S3_OBJECT = (dm = DOMAIN_BUFFER_PERSISTENCE)"
| "flow_content_profile_domain_valid dm PROFILE_DATABASE_PARAMETERS =
     (dm = DOMAIN_BUFFER_PERSISTENCE)"
| "flow_content_profile_domain_valid dm PROFILE_DATABASE_ROWSET = (dm = DOMAIN_BUFFER_PERSISTENCE)"
| "flow_content_profile_domain_valid dm PROFILE_DATABASE_COMMAND_RESULT =
     (dm = DOMAIN_BUFFER_PERSISTENCE)"
| "flow_content_profile_domain_valid dm PROFILE_PROTOCOL_DATA =
     (dm = DOMAIN_PROTOCOL_PATTERN \<or> dm = DOMAIN_DATA)"
| "flow_content_profile_domain_valid dm PROFILE_PROTOCOL_CONTROL = (dm = DOMAIN_PROTOCOL_PATTERN)"
| "flow_content_profile_domain_valid dm PROFILE_MQTT_APPLICATION = (dm = DOMAIN_PROTOCOL_PATTERN)"
| "flow_content_profile_domain_valid dm PROFILE_MQTT_CONTROL = (dm = DOMAIN_PROTOCOL_PATTERN)"
| "flow_content_profile_domain_valid dm (PROFILE_OUT_OF_RANGE n) = False"

definition profile_in_range :: "content_profile \<Rightarrow> bool" where
  "profile_in_range p = (case p of PROFILE_OUT_OF_RANGE n \<Rightarrow> False | _ \<Rightarrow> True)"

definition encoding_in_range :: "data_encoding \<Rightarrow> bool" where
  "encoding_in_range e = (case e of ENCODING_OUT_OF_RANGE n \<Rightarrow> False | _ \<Rightarrow> True)"

definition content_known_flags :: u32 where
  "content_known_flags = CONTENT_SCHEMA_DECLARED OR CONTENT_BATCH OR CONTENT_PROTOCOL_CONTROL"

definition schema_declared :: "content_descriptor \<Rightarrow> bool" where
  "schema_declared d \<longleftrightarrow> cd_flags d AND CONTENT_SCHEMA_DECLARED \<noteq> 0"

text \<open>The media-type clause of \<open>turbo_flow_content_descriptor_check\<close>.\<close>

definition descriptor_media_status :: "content_descriptor \<Rightarrow> status" where
  "descriptor_media_status d =
     (if cstr (cd_media_type d) = [] then SALTS_OK
      else case turbo_flow_content_media_type_normalize (Some (cd_media_type d)) of
        (media_rc, enc, norm) \<Rightarrow>
          if media_rc = SALTS_OK \<and>
             (cd_encoding d \<noteq> enc \<or> cstr (cd_media_type d) \<noteq> str_of norm)
          then SALTS_EINVAL
          else if media_rc \<noteq> SALTS_OK \<and> media_rc \<noteq> SALTS_ENOENT then media_rc
          else SALTS_OK)"

definition turbo_flow_content_descriptor_check :: "content_descriptor option \<Rightarrow> status" where
  "turbo_flow_content_descriptor_check p =
     (case p of
        None \<Rightarrow> SALTS_EINVAL
      | Some d \<Rightarrow>
          if cd_size d = ShortSize \<or> cd_domain d = DOMAIN_NONE \<or>
             \<not> profile_in_range (cd_profile d) \<or> \<not> encoding_in_range (cd_encoding d)
          then SALTS_EINVAL
          else if \<not> flow_content_profile_domain_valid (cd_domain d) (cd_profile d) \<or>
                  cd_flags d AND NOT content_known_flags \<noteq> 0
          then SALTS_EINVAL
          else if cd_media_type d ! CONTENT_MEDIA_TYPE_MAX \<noteq> NUL \<or>
                  cd_schema_name d ! CONTENT_SCHEMA_NAME_MAX \<noteq> NUL \<or>
                  cd_type_name d ! CONTENT_TYPE_NAME_MAX \<noteq> NUL \<or>
                  cd_identity d ! CONTENT_IDENTITY_MAX \<noteq> NUL
          then SALTS_EINVAL
          else if cd_profile d \<noteq> PROFILE_GENERIC \<and> cstr (cd_media_type d) = []
          then SALTS_EINVAL
          else if cd_flags d AND CONTENT_PROTOCOL_CONTROL \<noteq> 0 \<and>
                  cd_profile d \<noteq> PROFILE_PROTOCOL_CONTROL \<and> cd_profile d \<noteq> PROFILE_MQTT_CONTROL
          then SALTS_EINVAL
          else if descriptor_media_status d \<noteq> SALTS_OK then descriptor_media_status d
          else if schema_declared d
          then (if cstr (cd_schema_name d) \<noteq> [] \<and> cstr (cd_type_name d) \<noteq> [] \<and>
                   cd_schema_version d \<noteq> 0
                then SALTS_OK else SALTS_EINVAL)
          else (if cstr (cd_schema_name d) = [] \<and> cstr (cd_type_name d) = [] \<and>
                   cd_schema_version d = 0
                then SALTS_OK else SALTS_EINVAL))"

definition turbo_flow_content_descriptor_init ::
    "content_descriptor \<Rightarrow> turbo_flow_domain \<Rightarrow> content_profile \<Rightarrow> data_encoding \<Rightarrow> string option \<Rightarrow>
     string option \<Rightarrow> content_descriptor \<times> status" where
  "turbo_flow_content_descriptor_init d dm prof enc media ident =
     (if dm = DOMAIN_NONE \<or> \<not> profile_in_range prof \<or> \<not> encoding_in_range enc
      then (d, SALTS_EINVAL)
      else
        (let d0 = zero_descriptor ExactSize dm prof enc;
             (m, rc) = flow_content_copy (cd_media_type d0) media;
             d1 = d0\<lparr>cd_media_type := m\<rparr>
         in if rc \<noteq> SALTS_OK then (d1, rc)
            else
              (let (i, rc) = flow_content_copy (cd_identity d1) ident;
                   d2 = d1\<lparr>cd_identity := i\<rparr>
               in if rc \<noteq> SALTS_OK then (d2, rc)
                  else (d2, turbo_flow_content_descriptor_check (Some d2)))))"

definition turbo_flow_content_descriptor_declare_schema ::
    "content_descriptor \<Rightarrow> string option \<Rightarrow> string option \<Rightarrow> u32 \<Rightarrow> content_descriptor \<times> status" where
  "turbo_flow_content_descriptor_declare_schema d schema_name type_name ver =
     (if turbo_flow_content_descriptor_check (Some d) \<noteq> SALTS_OK \<or> \<not> str_given schema_name \<or>
         \<not> str_given type_name \<or> ver = 0
      then (d, SALTS_EINVAL)
      else if schema_declared d
      then (d, if cd_schema_version d = ver \<and> cstr (cd_schema_name d) = str_of schema_name \<and>
                  cstr (cd_type_name d) = str_of type_name
               then SALTS_OK else SALTS_EPROTO)
      else
        (let (s, rc) = flow_content_copy (cd_schema_name d) schema_name in
         if rc \<noteq> SALTS_OK then (d\<lparr>cd_schema_name := s\<rparr>, rc)
         else
           (let d1 = d\<lparr>cd_schema_name := s\<rparr>;
                (t, rc) = flow_content_copy (cd_type_name d1) type_name
            in if rc \<noteq> SALTS_OK
               then (d1\<lparr>cd_type_name := t, cd_schema_name := (cd_schema_name d1)[0 := NUL]\<rparr>, rc)
               else (d1\<lparr>cd_type_name := t, cd_schema_version := ver,
                        cd_flags := cd_flags d1 OR CONTENT_SCHEMA_DECLARED\<rparr>, SALTS_OK))))"

section \<open>The projection registry\<close>

record data_schema =
  ds_size :: abi_size
  ds_domain :: turbo_flow_domain
  ds_encoding :: data_encoding
  ds_schema_name :: "string option"
  ds_type_name :: "string option"
  ds_projection_type :: "string option"
  ds_schema_id :: u32
  ds_schema_version :: u32
  ds_schema_text :: "string option"

record registry_entry =
  re_match :: content_descriptor
  re_schema :: data_schema

type_synonym projection_registry = "registry_entry list"

definition flow_projection_registry_key_equal ::
    "registry_entry \<Rightarrow> content_descriptor \<Rightarrow> data_schema \<Rightarrow> bool" where
  "flow_projection_registry_key_equal e m sc \<longleftrightarrow>
     cd_domain (re_match e) = cd_domain m \<and> cd_profile (re_match e) = cd_profile m \<and>
     cstr (cd_media_type (re_match e)) = cstr (cd_media_type m) \<and>
     str_of (ds_schema_name (re_schema e)) = str_of (ds_schema_name sc) \<and>
     str_of (ds_type_name (re_schema e)) = str_of (ds_type_name sc) \<and>
     ds_schema_version (re_schema e) = ds_schema_version sc"

definition flow_projection_registry_definition_equal :: "registry_entry \<Rightarrow> data_schema \<Rightarrow> bool" where
  "flow_projection_registry_definition_equal e sc \<longleftrightarrow>
     ds_domain (re_schema e) = ds_domain sc \<and> ds_encoding (re_schema e) = ds_encoding sc \<and>
     ds_schema_id (re_schema e) = ds_schema_id sc \<and>
     str_of (ds_projection_type (re_schema e)) = str_of (ds_projection_type sc)"

definition flow_projection_registry_matches :: "registry_entry \<Rightarrow> content_descriptor \<Rightarrow> bool" where
  "flow_projection_registry_matches e d =
     (if cd_domain (re_match e) \<noteq> cd_domain d \<or> cd_profile (re_match e) \<noteq> cd_profile d \<or>
         cstr (cd_media_type (re_match e)) \<noteq> cstr (cd_media_type d)
      then False
      else if \<not> schema_declared d then False
      else cd_schema_version d = ds_schema_version (re_schema e) \<and>
           cstr (cd_schema_name d) = str_of (ds_schema_name (re_schema e)) \<and>
           cstr (cd_type_name d) = str_of (ds_type_name (re_schema e)))"

text \<open>
  Registration.  \<open>alloc_ok\<close> says whether the entry and its three strings could be allocated,
  \<open>push_rc\<close> is the result of appending to the entry vector.
\<close>

definition turbo_flow_projection_registry_register ::
    "bool \<Rightarrow> status \<Rightarrow> projection_registry option \<Rightarrow> content_descriptor option \<Rightarrow> data_schema option \<Rightarrow>
     projection_registry option \<times> status" where
  "turbo_flow_projection_registry_register alloc_ok push_rc reg mt sch =
     (case (reg, mt, sch) of
        (Some es, Some m, Some sc) \<Rightarrow>
          if turbo_flow_content_descriptor_check (Some m) \<noteq> SALTS_OK \<or>
             ds_size sc = ShortSize \<or> ds_domain sc \<noteq> cd_domain m \<or>
             \<not> str_given (ds_schema_name sc) \<or> \<not> str_given (ds_type_name sc) \<or>
             \<not> str_given (ds_projection_type sc) \<or> ds_schema_version sc = 0 \<or>
             ds_encoding sc \<noteq> cd_encoding m \<or> ds_schema_text sc \<noteq> None
          then (reg, SALTS_EINVAL)
          else if schema_declared m \<and>
                  (cd_schema_version m \<noteq> ds_schema_version sc \<or>
                   cstr (cd_schema_name m) \<noteq> str_of (ds_schema_name sc) \<or>
                   cstr (cd_type_name m) \<noteq> str_of (ds_type_name sc))
          then (reg, SALTS_EPROTO)
          else (case first_index (\<lambda>e. flow_projection_registry_key_equal e m sc) es of
                  Some i \<Rightarrow>
                    (reg, if flow_projection_registry_definition_equal (es ! i) sc
                          then SALTS_EALREADY else SALTS_EPROTO)
                | None \<Rightarrow>
                    if \<not> alloc_ok then (reg, SALTS_ENOMEM)
                    else if push_rc \<noteq> SALTS_OK then (reg, push_rc)
                    else (Some (es @ [\<lparr>re_match = m\<lparr>cd_size := ExactSize\<rparr>,
                                       re_schema = sc\<lparr>ds_size := ExactSize,
                                         ds_schema_name := Some (str_of (ds_schema_name sc)),
                                         ds_type_name := Some (str_of (ds_type_name sc)),
                                         ds_projection_type := Some (str_of (ds_projection_type sc)),
                                         ds_schema_text := None\<rparr>\<rparr>]), SALTS_OK))
      | _ \<Rightarrow> (reg, SALTS_EINVAL))"

text \<open>The resolving loop keeps overwriting \<open>resolved\<close>, so the last match wins.\<close>

fun registry_last_match :: "projection_registry \<Rightarrow> content_descriptor \<Rightarrow> data_schema option \<Rightarrow>
    data_schema option" where
  "registry_last_match [] d resolved = resolved"
| "registry_last_match (e # es) d resolved =
     registry_last_match es d
       (if flow_projection_registry_matches e d then Some (re_schema e) else resolved)"

definition turbo_flow_projection_registry_resolve ::
    "projection_registry option \<Rightarrow> content_descriptor option \<Rightarrow> data_schema option \<times> status" where
  "turbo_flow_projection_registry_resolve reg desc =
     (case (reg, desc) of
        (Some es, Some d) \<Rightarrow>
          if turbo_flow_content_descriptor_check (Some d) \<noteq> SALTS_OK then (None, SALTS_EINVAL)
          else (case registry_last_match es d None of
                  Some sc \<Rightarrow> (Some sc, SALTS_OK)
                | None \<Rightarrow> (None, SALTS_ENOENT))
      | _ \<Rightarrow> (None, SALTS_EINVAL))"

record schema_ref =
  sr_size :: abi_size
  sr_schema_name :: "string option"
  sr_type_name :: "string option"
  sr_schema_version :: u32

definition turbo_flow_content_descriptor_resolve ::
    "content_descriptor \<Rightarrow> projection_registry option \<Rightarrow> schema_ref option \<Rightarrow>
     content_descriptor \<times> status" where
  "turbo_flow_content_descriptor_resolve d reg selector =
     (if turbo_flow_content_descriptor_check (Some d) \<noteq> SALTS_OK then (d, SALTS_EINVAL)
      else
        (let (d1, rc1) =
           (case selector of
              None \<Rightarrow> (d, SALTS_OK)
            | Some r \<Rightarrow>
                if sr_size r = ShortSize \<or> \<not> str_given (sr_schema_name r) \<or>
                   \<not> str_given (sr_type_name r) \<or> sr_schema_version r = 0 \<or> reg = None
                then (d, SALTS_EINVAL)
                else turbo_flow_content_descriptor_declare_schema d (sr_schema_name r)
                       (sr_type_name r) (sr_schema_version r))
         in if rc1 \<noteq> SALTS_OK then (d1, rc1)
            else if reg = None then (d1, SALTS_OK)
            else
              (case turbo_flow_projection_registry_resolve reg (Some d1) of
                 (sch, rc) \<Rightarrow>
                   if rc = SALTS_ENOENT
                   then (d1, if selector \<noteq> None then SALTS_EPROTO else SALTS_OK)
                   else if rc \<noteq> SALTS_OK then (d1, rc)
                   else (case sch of
                           None \<Rightarrow> (d1, SALTS_EPROTO)
                         | Some sc \<Rightarrow>
                             if schema_declared d1
                             then (d1, if cd_schema_version d1 = ds_schema_version sc \<and>
                                          cstr (cd_schema_name d1) = str_of (ds_schema_name sc) \<and>
                                          cstr (cd_type_name d1) = str_of (ds_type_name sc)
                                       then SALTS_OK else SALTS_EPROTO)
                             else turbo_flow_content_descriptor_declare_schema d1
                                    (ds_schema_name sc) (ds_type_name sc)
                                    (ds_schema_version sc)))))"

record content_binding =
  cb_size :: abi_size
  cb_registry :: "projection_registry option"
  cb_schema :: schema_ref

definition turbo_flow_content_descriptor_from_media ::
    "content_descriptor \<Rightarrow> turbo_flow_domain \<Rightarrow> content_profile \<Rightarrow> string option \<Rightarrow> string option \<Rightarrow>
     content_binding option \<Rightarrow> content_descriptor \<times> status" where
  "turbo_flow_content_descriptor_from_media d dm prof media ident binding =
     (if media = None then (d, SALTS_EINVAL)
      else
        (let fields = (case binding of None \<Rightarrow> (0 :: nat) | Some b \<Rightarrow>
               of_bool (str_given (sr_schema_name (cb_schema b))) +
               of_bool (str_given (sr_type_name (cb_schema b))) +
               of_bool (sr_schema_version (cb_schema b) \<noteq> 0))
         in if (case binding of None \<Rightarrow> False | Some b \<Rightarrow>
                  cb_size b = ShortSize \<or> sr_size (cb_schema b) = ShortSize) \<or>
               (fields \<noteq> 0 \<and> fields \<noteq> 3)
            then (d, SALTS_EINVAL)
            else
              (let selector = (if fields = 3 then map_option cb_schema binding else None) in
               case turbo_flow_content_media_type_normalize media of
                 (rc, enc, norm) \<Rightarrow>
                   if rc \<noteq> SALTS_OK then (d, rc)
                   else
                     (case turbo_flow_content_descriptor_init d dm prof enc norm ident of
                        (d1, rc) \<Rightarrow>
                          if rc \<noteq> SALTS_OK then (d1, rc)
                          else turbo_flow_content_descriptor_resolve d1
                                 (Option.bind binding cb_registry) selector))))"

definition turbo_flow_content_descriptor_validate ::
    "content_descriptor \<Rightarrow> content_descriptor \<Rightarrow> status" where
  "turbo_flow_content_descriptor_validate e a =
     (if turbo_flow_content_descriptor_check (Some e) \<noteq> SALTS_OK \<or>
         turbo_flow_content_descriptor_check (Some a) \<noteq> SALTS_OK
      then SALTS_EINVAL
      else if cd_domain e \<noteq> cd_domain a \<or> cd_profile e \<noteq> cd_profile a \<or>
              cd_encoding e \<noteq> cd_encoding a \<or> cstr (cd_media_type e) \<noteq> cstr (cd_media_type a)
      then SALTS_EPROTO
      else if schema_declared e \<noteq> schema_declared a \<or>
              (schema_declared e \<and> (cd_schema_version e \<noteq> cd_schema_version a \<or>
                 cstr (cd_schema_name e) \<noteq> cstr (cd_schema_name a) \<or>
                 cstr (cd_type_name e) \<noteq> cstr (cd_type_name a)))
      then SALTS_EPROTO
      else SALTS_OK)"

definition turbo_flow_content_descriptor_validate_payload ::
    "content_descriptor option \<Rightarrow> content_descriptor option \<Rightarrow> status" where
  "turbo_flow_content_descriptor_validate_payload pe pa =
     (case (pe, pa) of
        (Some e, Some a) \<Rightarrow>
          if turbo_flow_content_descriptor_check pe \<noteq> SALTS_OK \<or>
             turbo_flow_content_descriptor_check pa \<noteq> SALTS_OK
          then SALTS_EINVAL
          else if cd_encoding e \<noteq> cd_encoding a \<or> cstr (cd_media_type e) \<noteq> cstr (cd_media_type a)
          then SALTS_EPROTO
          else if schema_declared e \<and>
                  (\<not> schema_declared a \<or> cd_schema_version e \<noteq> cd_schema_version a \<or>
                   cstr (cd_schema_name e) \<noteq> cstr (cd_schema_name a) \<or>
                   cstr (cd_type_name e) \<noteq> cstr (cd_type_name a))
          then SALTS_EPROTO
          else SALTS_OK
      | _ \<Rightarrow> SALTS_EINVAL)"

section \<open>Media normalisation is a fixed point\<close>

lemma iequal_n_lower:
  "length a = n \<Longrightarrow> length b = n \<Longrightarrow>
   flow_content_ascii_iequal_n a b n = (map ascii_lower a = map ascii_lower b)"
  by (induction a b n rule: flow_content_ascii_iequal_n.induct) auto

lemma media_equal_iff:
  "flow_content_media_equal t (length t) e \<longleftrightarrow> map ascii_lower t = map ascii_lower e"
  by (metis flow_content_media_equal_def iequal_n_lower map_eq_imp_length_eq)

definition canonical_media :: "(string \<times> data_encoding) list" where
  "canonical_media =
     [(''application/json'', ENCODING_JSON), (''text/csv'', ENCODING_CSV),
      (''application/xml'', ENCODING_XML), (''text/plain'', ENCODING_UTF8),
      (''application/octet-stream'', ENCODING_OPAQUE), (''application/vnd.tbe'', ENCODING_TBE),
      (''application/vnd.turboflow.pg-rowset+json'', ENCODING_JSON),
      (''application/vnd.turboflow.pg-command+json'', ENCODING_JSON)]"

lemma normalize_canonical:
  assumes "turbo_flow_content_media_type_normalize m = (SALTS_OK, e, n)"
  shows "\<exists>c. n = Some c \<and> (c, e) \<in> set canonical_media"
  using assms
  by (auto simp: turbo_flow_content_media_type_normalize_def canonical_media_def Let_def
      split: option.splits if_splits)

lemma normalize_of_canonical:
  assumes "(c, e) \<in> set canonical_media"
  shows "turbo_flow_content_media_type_normalize (Some c) = (SALTS_OK, e, Some c)"
proof -
  have "\<forall>(c, e) \<in> set canonical_media.
          turbo_flow_content_media_type_normalize (Some c) = (SALTS_OK, e, Some c)"
    by code_simp
  with assms show ?thesis by blast
qed

section \<open>Descriptor operations keep a checked descriptor checked\<close>

lemma content_copy_OK:
  assumes "flow_content_copy dst src = (dst', SALTS_OK)"
  shows "length dst' = length dst" and "cstr dst' = str_of src"
    and "length dst = Suc n \<Longrightarrow> dst ! n = NUL \<Longrightarrow> dst' ! n = NUL"
proof -
  consider (null) "src = None" "dst' = dst[0 := NUL]" "dst \<noteq> []"
    | (str) t where "src = Some t" "dst' = cstr t @ NUL # drop (Suc (length (cstr t))) dst"
        "length (cstr t) < length dst"
    using assms by (auto simp: flow_content_copy_def Let_def split: option.splits if_splits)
  note cases = this
  show "length dst' = length dst"
    by (cases rule: cases) auto
  show "cstr dst' = str_of src"
  proof (cases rule: cases)
    case null
    then show ?thesis by (cases dst) (auto simp: str_of_def cstr_def)
  next
    case str
    then show ?thesis by (simp add: str_of_def cstr_append_NUL)
  qed
  show "dst' ! n = NUL" if "length dst = Suc n" and "dst ! n = NUL"
  proof (cases rule: cases)
    case null
    with that show ?thesis by (cases n) auto
  next
    case str
    with that show ?thesis by (auto simp: nth_append nth_Cons' not_less)
  qed
qed

lemma check_OK_iff:
  "turbo_flow_content_descriptor_check (Some d) = SALTS_OK \<longleftrightarrow>
     cd_size d \<noteq> ShortSize \<and> cd_domain d \<noteq> DOMAIN_NONE \<and> profile_in_range (cd_profile d) \<and>
     encoding_in_range (cd_encoding d) \<and>
     flow_content_profile_domain_valid (cd_domain d) (cd_profile d) \<and>
     cd_flags d AND NOT content_known_flags = 0 \<and>
     cd_media_type d ! CONTENT_MEDIA_TYPE_MAX = NUL \<and>
     cd_schema_name d ! CONTENT_SCHEMA_NAME_MAX = NUL \<and>
     cd_type_name d ! CONTENT_TYPE_NAME_MAX = NUL \<and> cd_identity d ! CONTENT_IDENTITY_MAX = NUL \<and>
     (cd_profile d = PROFILE_GENERIC \<or> cstr (cd_media_type d) \<noteq> []) \<and>
     (cd_flags d AND CONTENT_PROTOCOL_CONTROL = 0 \<or> cd_profile d = PROFILE_PROTOCOL_CONTROL \<or>
      cd_profile d = PROFILE_MQTT_CONTROL) \<and>
     descriptor_media_status d = SALTS_OK \<and>
     (if schema_declared d
      then cstr (cd_schema_name d) \<noteq> [] \<and> cstr (cd_type_name d) \<noteq> [] \<and> cd_schema_version d \<noteq> 0
      else cstr (cd_schema_name d) = [] \<and> cstr (cd_type_name d) = [] \<and> cd_schema_version d = 0)"
  unfolding turbo_flow_content_descriptor_check_def option.case de_Morgan_disj not_not
  by (cases "schema_declared d"; simp only: guards status.distinct if_True if_False simp_thms; blast)

lemma declared_flag:
  fixes f :: u32
  shows "(f OR CONTENT_SCHEMA_DECLARED) AND CONTENT_SCHEMA_DECLARED \<noteq> 0"
    and "(f OR CONTENT_SCHEMA_DECLARED) AND CONTENT_PROTOCOL_CONTROL
           = f AND CONTENT_PROTOCOL_CONTROL"
    and "f AND NOT content_known_flags = 0 \<Longrightarrow>
         (f OR CONTENT_SCHEMA_DECLARED) AND NOT content_known_flags = 0"
  by (simp_all add: content_consts content_known_flags_def bit.conj_disj_distrib2)

lemma check_declared_update:
  assumes ok: "turbo_flow_content_descriptor_check (Some d) = SALTS_OK"
    and "cstr s \<noteq> []" and "cstr t \<noteq> []" and "v \<noteq> 0"
    and "s ! CONTENT_SCHEMA_NAME_MAX = NUL" and "t ! CONTENT_TYPE_NAME_MAX = NUL"
  shows "turbo_flow_content_descriptor_check (Some (d\<lparr>cd_schema_name := s, cd_type_name := t,
           cd_schema_version := v, cd_flags := cd_flags d OR CONTENT_SCHEMA_DECLARED\<rparr>)) = SALTS_OK"
proof -
  have "descriptor_media_status (d\<lparr>cd_schema_name := s, cd_type_name := t,
          cd_schema_version := v, cd_flags := cd_flags d OR CONTENT_SCHEMA_DECLARED\<rparr>)
        = descriptor_media_status d"
    by (simp add: descriptor_media_status_def)
  moreover have "schema_declared (d\<lparr>cd_schema_name := s, cd_type_name := t,
          cd_schema_version := v, cd_flags := cd_flags d OR CONTENT_SCHEMA_DECLARED\<rparr>)"
    using declared_flag(1) [of "cd_flags d"] by (simp del: bit.conj_disj_distribs add: schema_declared_def)
  ultimately show ?thesis
    using assms by (simp add: check_OK_iff declared_flag)
qed

lemma declare_schema_OK_cases:
  assumes call: "turbo_flow_content_descriptor_declare_schema d sn tn v = (d', SALTS_OK)"
  obtains (old) "schema_declared d" "d' = d" "cd_schema_version d = v"
      "cstr (cd_schema_name d) = str_of sn" "cstr (cd_type_name d) = str_of tn"
    | (new) s t where
      "flow_content_copy (cd_schema_name d) sn = (s, SALTS_OK)"
      "flow_content_copy (cd_type_name d) tn = (t, SALTS_OK)"
      "d' = d\<lparr>cd_schema_name := s, cd_type_name := t, cd_schema_version := v,
             cd_flags := cd_flags d OR CONTENT_SCHEMA_DECLARED\<rparr>"
proof (cases "schema_declared d")
  case True
  with call show thesis
    by (auto intro: old simp: turbo_flow_content_descriptor_declare_schema_def split: if_splits)
next
  case False
  obtain s rc where s: "flow_content_copy (cd_schema_name d) sn = (s, rc)" by fastforce
  obtain t rc' where t: "flow_content_copy (cd_type_name d) tn = (t, rc')" by fastforce
  from call False s t show thesis
    unfolding turbo_flow_content_descriptor_declare_schema_def
    by (intro new [of s t]) (auto simp: Let_def split: if_splits)
qed

lemma declare_schema_OK:
  assumes call: "turbo_flow_content_descriptor_declare_schema d sn tn v = (d', SALTS_OK)"
    and arr: "descriptor_arrays d"
  shows "turbo_flow_content_descriptor_check (Some d') = SALTS_OK" and "descriptor_arrays d'"
    and "schema_declared d'" and "cstr (cd_schema_name d') = str_of sn"
    and "cstr (cd_type_name d') = str_of tn" and "cd_schema_version d' = v"
    and "cd_media_type d' = cd_media_type d"
proof -
  have ok: "turbo_flow_content_descriptor_check (Some d) = SALTS_OK"
    and given: "str_given sn" "str_given tn" "v \<noteq> 0"
    using call unfolding turbo_flow_content_descriptor_declare_schema_def
    by (simp_all only: guards status.distinct simp_thms de_Morgan_disj)
  note cases = declare_schema_OK_cases [OF call]
  have new_facts: "cstr s = str_of sn" "cstr t = str_of tn"
      "s ! CONTENT_SCHEMA_NAME_MAX = NUL" "t ! CONTENT_TYPE_NAME_MAX = NUL"
      "length s = CONTENT_SCHEMA_NAME_MAX + 1" "length t = CONTENT_TYPE_NAME_MAX + 1"
    if "flow_content_copy (cd_schema_name d) sn = (s, SALTS_OK)"
      and "flow_content_copy (cd_type_name d) tn = (t, SALTS_OK)" for s t
    using content_copy_OK(1,2) [OF that(1)] content_copy_OK(3) [OF that(1), of CONTENT_SCHEMA_NAME_MAX]
      content_copy_OK(1,2) [OF that(2)] content_copy_OK(3) [OF that(2), of CONTENT_TYPE_NAME_MAX] ok [unfolded check_OK_iff] arr
    by (simp_all add: descriptor_arrays_def)
  have nonempty: "str_of sn \<noteq> []" "str_of tn \<noteq> []"
    using given by (auto simp: str_given_def str_of_def split: option.splits)
  show "turbo_flow_content_descriptor_check (Some d') = SALTS_OK"
    by (cases rule: cases) (use ok nonempty given new_facts check_declared_update [OF ok] in auto)
  show "descriptor_arrays d'"
    by (cases rule: cases) (use arr new_facts in \<open>auto simp: descriptor_arrays_def\<close>)
  show "schema_declared d'"
    by (cases rule: cases) (auto simp: schema_declared_def content_consts)
  show "cstr (cd_schema_name d') = str_of sn"
    by (cases rule: cases) (use new_facts in auto)
  show "cstr (cd_type_name d') = str_of tn"
    by (cases rule: cases) (use new_facts in auto)
  show "cd_schema_version d' = v"
    by (cases rule: cases) auto
  show "cd_media_type d' = cd_media_type d"
    by (cases rule: cases) auto
qed

lemma descriptor_init_OK:
  assumes "turbo_flow_content_descriptor_init d dm prof enc media ident = (d', SALTS_OK)"
  shows "turbo_flow_content_descriptor_check (Some d') = SALTS_OK" and "descriptor_arrays d'"
    and "cstr (cd_media_type d') = str_of media" and "\<not> schema_declared d'"
proof -
  let ?z = "zero_descriptor ExactSize dm prof enc"
  obtain m rc where m: "flow_content_copy (cd_media_type ?z) media = (m, rc)" by fastforce
  obtain i rc' where i: "flow_content_copy (cd_identity ?z) ident = (i, rc')" by fastforce
  have "(d', SALTS_OK) = (?z\<lparr>cd_media_type := m, cd_identity := i\<rparr>,
      turbo_flow_content_descriptor_check (Some (?z\<lparr>cd_media_type := m, cd_identity := i\<rparr>)))"
    and rcs: "rc = SALTS_OK" "rc' = SALTS_OK"
    using assms m i unfolding turbo_flow_content_descriptor_init_def Let_def
    by (auto split: if_splits)
  then have d': "d' = ?z\<lparr>cd_media_type := m, cd_identity := i\<rparr>"
    and ok: "turbo_flow_content_descriptor_check (Some d') = SALTS_OK" by simp_all
  show "turbo_flow_content_descriptor_check (Some d') = SALTS_OK" by (rule ok)
  have len: "length m = CONTENT_MEDIA_TYPE_MAX + 1" "length i = CONTENT_IDENTITY_MAX + 1"
    using content_copy_OK(1) m i rcs by (force simp: zero_descriptor_def)+
  then show "descriptor_arrays d'"
    by (simp add: d' descriptor_arrays_def zero_descriptor_def)
  show "cstr (cd_media_type d') = str_of media"
    using content_copy_OK(2) m rcs by (simp add: d')
  show "\<not> schema_declared d'"
    by (simp add: d' schema_declared_def zero_descriptor_def)
qed

lemma descriptor_resolve_OK:
  assumes call: "turbo_flow_content_descriptor_resolve d reg sel = (d', SALTS_OK)"
    and arr: "descriptor_arrays d"
  shows "turbo_flow_content_descriptor_check (Some d') = SALTS_OK \<and> descriptor_arrays d' \<and>
    cd_media_type d' = cd_media_type d"
proof -
  define step where "step = (case sel of None \<Rightarrow> (d, SALTS_OK)
      | Some r \<Rightarrow>
          if sr_size r = ShortSize \<or> \<not> str_given (sr_schema_name r) \<or>
             \<not> str_given (sr_type_name r) \<or> sr_schema_version r = 0 \<or> reg = None
          then (d, SALTS_EINVAL)
          else turbo_flow_content_descriptor_declare_schema d (sr_schema_name r)
                 (sr_type_name r) (sr_schema_version r))"
  obtain d1 rc1 where d1: "step = (d1, rc1)" by fastforce
  obtain sch rc2 where r2: "turbo_flow_projection_registry_resolve reg (Some d1) = (sch, rc2)"
    by fastforce
  have ok: "turbo_flow_content_descriptor_check (Some d) = SALTS_OK" and rc1: "rc1 = SALTS_OK"
    using call d1
    unfolding turbo_flow_content_descriptor_resolve_def step_def [symmetric]
    by (auto split: if_splits)
  have inv: "turbo_flow_content_descriptor_check (Some d1) = SALTS_OK \<and> descriptor_arrays d1 \<and>
      cd_media_type d1 = cd_media_type d"
    using d1 rc1 ok arr unfolding step_def
    by (auto split: option.splits if_splits dest: declare_schema_OK)
  have "d' = d1 \<or> (\<exists>sn tn v.
      turbo_flow_content_descriptor_declare_schema d1 sn tn v = (d', SALTS_OK))"
    using call d1 rc1 ok r2
    unfolding turbo_flow_content_descriptor_resolve_def step_def [symmetric]
    by (auto split: if_splits option.splits)
  with inv show ?thesis by (metis declare_schema_OK(1,2,7))
qed

section \<open>The registry as a map from content keys to schemas\<close>

definition registry_key :: "registry_entry \<Rightarrow>
    turbo_flow_domain \<times> content_profile \<times> string \<times> string \<times> string \<times> u32" where
  "registry_key e = (cd_domain (re_match e), cd_profile (re_match e), cstr (cd_media_type (re_match e)),
     str_of (ds_schema_name (re_schema e)), str_of (ds_type_name (re_schema e)),
     ds_schema_version (re_schema e))"

definition descriptor_key :: "content_descriptor \<Rightarrow>
    turbo_flow_domain \<times> content_profile \<times> string \<times> string \<times> string \<times> u32" where
  "descriptor_key d = (cd_domain d, cd_profile d, cstr (cd_media_type d), cstr (cd_schema_name d),
     cstr (cd_type_name d), cd_schema_version d)"

definition registration_key :: "content_descriptor \<Rightarrow> data_schema \<Rightarrow>
    turbo_flow_domain \<times> content_profile \<times> string \<times> string \<times> string \<times> u32" where
  "registration_key m sc = (cd_domain m, cd_profile m, cstr (cd_media_type m),
     str_of (ds_schema_name sc), str_of (ds_type_name sc), ds_schema_version sc)"

definition registry_inv :: "projection_registry \<Rightarrow> bool" where
  "registry_inv es \<longleftrightarrow> distinct (map registry_key es)"

lemma key_equal_iff: "flow_projection_registry_key_equal e m sc \<longleftrightarrow> registry_key e = registration_key m sc"
  by (auto simp: flow_projection_registry_key_equal_def registry_key_def registration_key_def)

lemma matches_iff:
  "flow_projection_registry_matches e d \<longleftrightarrow> schema_declared d \<and> registry_key e = descriptor_key d"
  by (auto simp: flow_projection_registry_matches_def registry_key_def descriptor_key_def)

lemma last_match_append:
  "registry_last_match (es @ [e]) d acc =
     (if flow_projection_registry_matches e d then Some (re_schema e)
      else registry_last_match es d acc)"
  by (induction es arbitrary: acc) auto

lemma register_OK:
  assumes "turbo_flow_projection_registry_register a p (Some es) (Some m) (Some sc) =
    (reg', SALTS_OK)"
  obtains e where "reg' = Some (es @ [e])" and "registry_key e = registration_key m sc"
    and "registration_key m sc \<notin> registry_key ` set es"
    and "ds_schema_id (re_schema e) = ds_schema_id sc"
    and "str_of (ds_projection_type (re_schema e)) = str_of (ds_projection_type sc)"
    and "flow_projection_registry_definition_equal e sc"
proof -
  have none: "first_index (\<lambda>e. flow_projection_registry_key_equal e m sc) es = None"
    using assms unfolding turbo_flow_projection_registry_register_def
    by (auto split: if_splits option.splits)
  let ?e = "\<lparr>re_match = m\<lparr>cd_size := ExactSize\<rparr>, re_schema = sc\<lparr>ds_size := ExactSize,
      ds_schema_name := Some (str_of (ds_schema_name sc)),
      ds_type_name := Some (str_of (ds_type_name sc)),
      ds_projection_type := Some (str_of (ds_projection_type sc)), ds_schema_text := None\<rparr>\<rparr>"
  have idem: "str_of (Some (str_of q)) = str_of q" for q
    by (cases q) (simp_all add: str_of_def, simp add: cstr_def)
  show thesis
  proof (rule that [of ?e])
    show "reg' = Some (es @ [?e])"
      using assms none unfolding turbo_flow_projection_registry_register_def
      by (auto split: if_splits)
    show "registry_key ?e = registration_key m sc"
      by (simp add: registry_key_def registration_key_def idem)
    show "registration_key m sc \<notin> registry_key ` set es"
      using none by (auto simp: first_index_None_iff key_equal_iff)
  qed (simp_all add: idem flow_projection_registry_definition_equal_def)
qed

lemma resolve_unique:
  assumes "registry_inv es" and "e \<in> set es" and "flow_projection_registry_matches e d"
  shows "registry_last_match es d acc = Some (re_schema e)"
  using assms
proof (induction es arbitrary: acc rule: rev_induct)
  case (snoc f es)
  show ?case
  proof (cases "flow_projection_registry_matches f d")
    case True
    with snoc.prems have "registry_key f = registry_key e" by (simp add: matches_iff)
    with snoc.prems have "f = e" by (auto simp: registry_inv_def)
    with True show ?thesis by (simp add: last_match_append)
  next
    case False
    with snoc.prems have "e \<in> set es" by auto
    with False snoc show ?thesis by (auto simp: last_match_append registry_inv_def)
  qed
qed simp

section \<open>Properties\<close>

text \<open>C26: Media-type normalisation is a fixed point.  When the normaliser accepts a header value
  it returns a canonical media type with its encoding, and normalising that canonical type again
  returns the same pair; so a descriptor built from a normalised type always passes its own
  media check.\<close>

theorem media_type_normalize_fixpoint:
  assumes "turbo_flow_content_media_type_normalize m = (SALTS_OK, e, n)"
  shows "\<exists>c. n = Some c \<and> turbo_flow_content_media_type_normalize n = (SALTS_OK, e, Some c)"
  using normalize_canonical [OF assms] normalize_of_canonical by blast

theorem media_type_normalize_fixpoint_witness:
  "turbo_flow_content_media_type_normalize (Some '' Text/XML ; charset=utf-8'') =
     (SALTS_OK, ENCODING_XML, Some ''application/xml'') \<and>
   (\<exists>c. Some ''application/xml'' = Some c \<and>
     turbo_flow_content_media_type_normalize (Some ''application/xml'') =
       (SALTS_OK, ENCODING_XML, Some c))"
proof -
  have h: "turbo_flow_content_media_type_normalize (Some '' Text/XML ; charset=utf-8'') =
      (SALTS_OK, ENCODING_XML, Some ''application/xml'')"
    by code_simp
  show ?thesis using h media_type_normalize_fixpoint [OF h] by blast
qed

text \<open>C25: Every descriptor that \<open>turbo_flow_content_descriptor_from_media\<close> reports as built
  satisfies the descriptor check, keeps its array sizes, and carries the canonical form of the
  media type it was built from, whatever the binding and registry.\<close>

theorem descriptor_from_media_checked:
  assumes "turbo_flow_content_descriptor_from_media d dm prof media ident binding = (d', SALTS_OK)"
  shows "turbo_flow_content_descriptor_check (Some d') = SALTS_OK \<and> descriptor_arrays d' \<and>
    (\<exists>e c. turbo_flow_content_media_type_normalize media = (SALTS_OK, e, Some c) \<and>
       cstr (cd_media_type d') = c)"
proof -
  obtain rc enc norm where n: "turbo_flow_content_media_type_normalize media = (rc, enc, norm)"
    by (metis surj_pair)
  obtain d1 rc1 where d1: "turbo_flow_content_descriptor_init d dm prof enc norm ident = (d1, rc1)"
    by fastforce
  obtain reg sel where res: "turbo_flow_content_descriptor_resolve d1 reg sel = (d', SALTS_OK)"
    and rcs: "rc = SALTS_OK" "rc1 = SALTS_OK"
    using assms n d1 unfolding turbo_flow_content_descriptor_from_media_def Let_def
    by (auto split: if_splits)
  note init = descriptor_init_OK [OF d1 [unfolded rcs]]
  obtain c where c: "norm = Some c" "(c, enc) \<in> set canonical_media"
    using normalize_canonical n rcs by blast
  have "cstr c = c" using c(2) by (auto simp: canonical_media_def cstr_def)
  with init c descriptor_resolve_OK [OF res init(2)] n rcs show ?thesis
    by (auto simp: str_of_def)
qed

theorem descriptor_from_media_checked_witness:
  "\<exists>d'. turbo_flow_content_descriptor_from_media CONTENT_DESCRIPTOR_INIT DOMAIN_DATA PROFILE_GENERIC
      (Some ''application/JSON'') (Some ''orders'') None = (d', SALTS_OK) \<and>
    turbo_flow_content_descriptor_check (Some d') = SALTS_OK"
proof -
  have "snd (turbo_flow_content_descriptor_from_media CONTENT_DESCRIPTOR_INIT DOMAIN_DATA
      PROFILE_GENERIC (Some ''application/JSON'') (Some ''orders'') None) = SALTS_OK"
    by code_simp
  then obtain d' where d': "turbo_flow_content_descriptor_from_media CONTENT_DESCRIPTOR_INIT
      DOMAIN_DATA PROFILE_GENERIC (Some ''application/JSON'') (Some ''orders'') None = (d', SALTS_OK)"
    by (metis prod.collapse)
  with descriptor_from_media_checked [OF d'] show ?thesis by blast
qed

text \<open>C24: Registry insertion and lookup.  A successful registration keeps the registered keys
  distinct; afterwards a checked descriptor that declares the registered key resolves to the new
  schema, every other checked descriptor resolves as before, and registering the same key again
  leaves the registry unchanged, reporting \<open>SALTS_EALREADY\<close> for the same definition.\<close>

theorem registry_register_resolve:
  assumes reg: "turbo_flow_projection_registry_register a p (Some es) (Some m) (Some sc) =
      (Some es', SALTS_OK)"
    and inv: "registry_inv es"
    and d: "turbo_flow_content_descriptor_check (Some d) = SALTS_OK"
  shows "registry_inv es' \<and>
    (schema_declared d \<and> descriptor_key d = registration_key m sc \<longrightarrow>
       (\<exists>sc'. turbo_flow_projection_registry_resolve (Some es') (Some d) = (Some sc', SALTS_OK) \<and>
          ds_schema_id sc' = ds_schema_id sc)) \<and>
    (\<not> (schema_declared d \<and> descriptor_key d = registration_key m sc) \<longrightarrow>
       turbo_flow_projection_registry_resolve (Some es') (Some d) =
         turbo_flow_projection_registry_resolve (Some es) (Some d)) \<and>
    turbo_flow_projection_registry_register a p (Some es') (Some m) (Some sc) =
      (Some es', SALTS_EALREADY)"
proof -
  from reg obtain e where es': "es' = es @ [e]"
    and key: "registry_key e = registration_key m sc"
    and fresh: "registration_key m sc \<notin> registry_key ` set es"
    and id: "ds_schema_id (re_schema e) = ds_schema_id sc"
    and def_eq: "flow_projection_registry_definition_equal e sc"
    by (rule register_OK) blast
  have inv': "registry_inv es'"
    using inv fresh key by (auto simp: es' registry_inv_def)
  have "first_index (\<lambda>f. flow_projection_registry_key_equal f m sc) es' = Some (length es)"
    by (rule first_index_unique)
      (use fresh key in \<open>auto simp: es' key_equal_iff nth_append image_iff split: if_splits,
        metis nth_mem\<close>)
  with reg def_eq have again:
    "turbo_flow_projection_registry_register a p (Some es') (Some m) (Some sc) =
      (Some es', SALTS_EALREADY)"
    unfolding turbo_flow_projection_registry_register_def
    by (auto simp: es' split: if_splits)
  have "registry_last_match es' d None =
      (if schema_declared d \<and> descriptor_key d = registration_key m sc then Some (re_schema e)
       else registry_last_match es d None)"
    by (auto simp: es' last_match_append matches_iff key)
  with inv' again id d show ?thesis
    by (auto simp: turbo_flow_projection_registry_resolve_def)
qed

text \<open>A JSON order schema registered for the data domain.\<close>

definition sample_match :: content_descriptor where
  "sample_match = fst (turbo_flow_content_descriptor_init CONTENT_DESCRIPTOR_INIT DOMAIN_DATA
     PROFILE_GENERIC ENCODING_JSON (Some ''application/json'') None)"

definition sample_schema :: data_schema where
  "sample_schema = \<lparr>ds_size = ExactSize, ds_domain = DOMAIN_DATA, ds_encoding = ENCODING_JSON,
     ds_schema_name = Some ''orders'', ds_type_name = Some ''Order'',
     ds_projection_type = Some ''Value'', ds_schema_id = 7, ds_schema_version = 2,
     ds_schema_text = None\<rparr>"

definition sample_descriptor :: content_descriptor where
  "sample_descriptor = fst (turbo_flow_content_descriptor_declare_schema sample_match
     (Some ''orders'') (Some ''Order'') 2)"

theorem registry_register_resolve_witness:
  "\<exists>es'. turbo_flow_projection_registry_register True SALTS_OK (Some []) (Some sample_match)
      (Some sample_schema) = (Some es', SALTS_OK) \<and>
    schema_declared sample_descriptor \<and>
    (\<exists>sc'. turbo_flow_projection_registry_resolve (Some es') (Some sample_descriptor) =
       (Some sc', SALTS_OK) \<and> ds_schema_id sc' = 7)"
proof -
  have "snd (turbo_flow_projection_registry_register True SALTS_OK (Some []) (Some sample_match)
      (Some sample_schema)) = SALTS_OK \<and>
    fst (turbo_flow_projection_registry_register True SALTS_OK (Some []) (Some sample_match)
      (Some sample_schema)) \<noteq> None"
    by code_simp
  then obtain es' where r: "turbo_flow_projection_registry_register True SALTS_OK (Some [])
      (Some sample_match) (Some sample_schema) = (Some es', SALTS_OK)"
    by (metis option.exhaust prod.collapse)
  have inv: "registry_inv []" by (simp add: registry_inv_def)
  have c: "turbo_flow_content_descriptor_check (Some sample_descriptor) = SALTS_OK" by code_simp
  have k: "schema_declared sample_descriptor \<and>
      descriptor_key sample_descriptor = registration_key sample_match sample_schema"
    by code_simp
  have "ds_schema_id sample_schema = 7" by (simp add: sample_schema_def)
  with r k registry_register_resolve [OF r inv c] show ?thesis by auto
qed

end
