(* ===== verification/Flow_Inbox.thy ===== *)
theory Flow_Inbox
  imports Flow_Content
begin

text \<open>
  The durable-inbox boundary: the model of \<open>turbo_flow/src/flow_inbox.c\<close> and of the types of
  \<open>turbo_flow/include/turbo_flow_inbox.h\<close>.

  The theory holds the built-in memory provider (\<open>flow_inbox_memory_*\<close>), whose state is the
  record \<open>flow_inbox_memory\<close>, and the host entry points (\<open>turbo_flow_inbox_*\<close>), which check
  their arguments, call the provider through its operation table and check what it returned.

  An admission takes the provider's lock twice: once to reserve a slot and a record id, and
  again, after the record was copied outside the lock, to publish the copy.  The two critical
  sections are the definitions \<open>admit_reserve\<close> and \<open>admit_commit\<close> (or \<open>admit_abort\<close> when the
  copy could not be allocated), and \<open>flow_inbox_memory_admit\<close> composes them.  Every other
  operation is one critical section.  A vector of slots is a list; the storage of a record is
  the byte list the views of the copied record point into.  Allocation success is a parameter.
\<close>

section \<open>Types\<close>

definition INBOX_API_VERSION :: u32 where "INBOX_API_VERSION = 4"
definition INBOX_RECORD_SCHEMA :: string where "INBOX_RECORD_SCHEMA = ''turbo-flow.inbox.record''"
definition INBOX_RECORD_SCHEMA_VERSION :: u32 where "INBOX_RECORD_SCHEMA_VERSION = 3"
definition INBOX_MEMORY_MAX_RECORDS :: size_t where "INBOX_MEMORY_MAX_RECORDS = 1048576"
definition INBOX_MEMORY_MAX_TOTAL_BYTES :: size_t where
  "INBOX_MEMORY_MAX_TOTAL_BYTES = SIZE_MAX div 2"
definition INBOX_CLAIM_MAX_EXCLUDED_PARTITIONS :: size_t where
  "INBOX_CLAIM_MAX_EXCLUDED_PARTITIONS = 64"
definition INBOX_CLAIM_MAX_EXCLUDED_BYTES :: size_t where
  "INBOX_CLAIM_MAX_EXCLUDED_BYTES = 64 * 1024"

lemmas inbox_consts = INBOX_API_VERSION_def INBOX_RECORD_SCHEMA_def INBOX_RECORD_SCHEMA_VERSION_def
  INBOX_MEMORY_MAX_RECORDS_def INBOX_MEMORY_MAX_TOTAL_BYTES_def
  INBOX_CLAIM_MAX_EXCLUDED_PARTITIONS_def INBOX_CLAIM_MAX_EXCLUDED_BYTES_def

record inbox_record =
  ir_size :: abi_size
  ir_version :: u32
  ir_envelope_schema :: "string option"
  ir_envelope_schema_version :: u32
  ir_source_id :: vstr
  ir_partition_key :: vstr
  ir_admission_id :: vstr
  ir_source_sequence :: u64
  ir_timestamp_ns :: u64
  ir_message_type :: u32
  ir_message_flags :: u32
  ir_content :: content_descriptor
  ir_correlation :: vstr
  ir_payload :: vstr

record inbox_receipt =
  rp_size :: abi_size
  rp_version :: u32
  rp_record_id :: u64

definition INBOX_RECEIPT_INIT :: inbox_receipt where
  "INBOX_RECEIPT_INIT = \<lparr>rp_size = ExactSize, rp_version = INBOX_API_VERSION, rp_record_id = 0\<rparr>"

text \<open>The all-zero record of \<open>{0}\<close> initialisers.\<close>

definition zero_inbox_record :: inbox_record where
  "zero_inbox_record =
     \<lparr>ir_size = ShortSize, ir_version = 0, ir_envelope_schema = None, ir_envelope_schema_version = 0,
      ir_source_id = NullView 0, ir_partition_key = NullView 0, ir_admission_id = NullView 0,
      ir_source_sequence = 0, ir_timestamp_ns = 0, ir_message_type = 0, ir_message_flags = 0,
      ir_content = zero_descriptor ShortSize DOMAIN_NONE PROFILE_GENERIC ENCODING_TBE,
      ir_correlation = NullView 0, ir_payload = NullView 0\<rparr>"

definition turbo_flow_inbox_record_init :: inbox_record where
  "turbo_flow_inbox_record_init =
     zero_inbox_record\<lparr>ir_size := ExactSize, ir_version := INBOX_API_VERSION,
       ir_envelope_schema := Some INBOX_RECORD_SCHEMA,
       ir_envelope_schema_version := INBOX_RECORD_SCHEMA_VERSION,
       ir_content := CONTENT_DESCRIPTOR_INIT\<rparr>"

record inbox_claim =
  cl_size :: abi_size
  cl_version :: u32
  cl_record_id :: u64
  cl_claim_token :: u64
  cl_record :: inbox_record

definition INBOX_CLAIM_INIT :: inbox_claim where
  "INBOX_CLAIM_INIT = \<lparr>cl_size = ExactSize, cl_version = INBOX_API_VERSION, cl_record_id = 0,
     cl_claim_token = 0, cl_record = zero_inbox_record\<rparr>"

datatype claim_ordering = ORDER_GLOBAL | ORDER_PARTITION_KEY | ORDER_OUT_OF_RANGE nat

text \<open>The pair of \<open>excluded_partitions\<close> and \<open>excluded_partition_count\<close>.\<close>

datatype partition_array = NullPartitions size_t | Partitions "vstr list"

fun partition_count :: "partition_array \<Rightarrow> size_t" where
  "partition_count (NullPartitions n) = n"
| "partition_count (Partitions ks) = of_nat (length ks)"

fun partition_keys :: "partition_array \<Rightarrow> vstr list" where
  "partition_keys (NullPartitions n) = []"
| "partition_keys (Partitions ks) = ks"

record claim_request =
  cq_size :: abi_size
  cq_version :: u32
  cq_ordering :: claim_ordering
  cq_excluded :: partition_array

definition INBOX_CLAIM_REQUEST_INIT :: claim_request where
  "INBOX_CLAIM_REQUEST_INIT = \<lparr>cq_size = ExactSize, cq_version = INBOX_API_VERSION,
     cq_ordering = ORDER_GLOBAL, cq_excluded = NullPartitions 0\<rparr>"

record inbox_snapshot =
  sn_size :: abi_size
  sn_version :: u32
  sn_generation :: u64
  sn_accepting :: int
  sn_records :: size_t
  sn_history_records :: size_t
  sn_pending_records :: size_t
  sn_failed_records :: size_t
  sn_in_flight_claims :: size_t
  sn_retained_bytes :: size_t
  sn_admitted :: u64
  sn_completed :: u64
  sn_failed :: u64
  sn_retried :: u64
  sn_discarded :: u64

definition INBOX_SNAPSHOT_INIT :: inbox_snapshot where
  "INBOX_SNAPSHOT_INIT = \<lparr>sn_size = ExactSize, sn_version = INBOX_API_VERSION, sn_generation = 0,
     sn_accepting = 0, sn_records = 0, sn_history_records = 0, sn_pending_records = 0,
     sn_failed_records = 0, sn_in_flight_claims = 0, sn_retained_bytes = 0, sn_admitted = 0,
     sn_completed = 0, sn_failed = 0, sn_retried = 0, sn_discarded = 0\<rparr>"

datatype failure_kind = FAILURE_PROCESSING | FAILURE_OWNER_LOST_UNKNOWN | FAILURE_OUT_OF_RANGE nat
datatype terminal_kind = TERMINAL_ZERO | TERMINAL_COMPLETED | TERMINAL_DISCARDED

record failed_entry =
  fe_size :: abi_size
  fe_version :: u32
  fe_record_id :: u64
  fe_status :: status
  fe_kind :: failure_kind

definition INBOX_FAILED_ENTRY_INIT :: failed_entry where
  "INBOX_FAILED_ENTRY_INIT = \<lparr>fe_size = ExactSize, fe_version = INBOX_API_VERSION,
     fe_record_id = 0, fe_status = SALTS_OK, fe_kind = FAILURE_PROCESSING\<rparr>"

record history_entry =
  he_size :: abi_size
  he_version :: u32
  he_record_id :: u64
  he_kind :: terminal_kind

definition INBOX_HISTORY_ENTRY_INIT :: history_entry where
  "INBOX_HISTORY_ENTRY_INIT = \<lparr>he_size = ExactSize, he_version = INBOX_API_VERSION,
     he_record_id = 0, he_kind = TERMINAL_COMPLETED\<rparr>"

datatype record_phase = RECORD_PENDING | RECORD_CLAIMED | RECORD_FAILED | RECORD_TOMBSTONE

record memory_record =
  mr_record_id :: u64
  mr_claim_token :: u64
  mr_failure_status :: status
  mr_failure_kind :: failure_kind
  mr_terminal_kind :: terminal_kind
  mr_phase :: record_phase
  mr_retained_bytes :: size_t
  mr_storage :: "u8 list"
  mr_view :: inbox_record

record memory_slot =
  sl_record :: "memory_record option"
  sl_reserved :: bool

record inbox_memory_config =
  mc_size :: abi_size
  mc_version :: u32
  mc_max_records :: size_t
  mc_max_total_bytes :: size_t
  mc_max_record_bytes :: size_t
  mc_max_claims :: size_t

record flow_inbox_memory =
  im_records :: "memory_slot list"
  im_config :: inbox_memory_config
  im_retained_bytes :: size_t
  im_reserved_bytes :: size_t
  im_reserved_records :: size_t
  im_live_records :: size_t
  im_history_records :: size_t
  im_in_flight_claims :: size_t
  im_next_record_id :: u64
  im_next_claim_token :: u64
  im_admitted :: u64
  im_completed :: u64
  im_failed :: u64
  im_retried :: u64
  im_discarded :: u64
  im_accepting :: bool
  im_record_id_exhausted :: bool
  im_claim_token_exhausted :: bool

section \<open>Validity checks\<close>

definition flow_inbox_view_equal :: "vstr \<Rightarrow> vstr \<Rightarrow> bool" where
  "flow_inbox_view_equal l r \<longleftrightarrow>
     vstr_len l = vstr_len r \<and> (vstr_len l = 0 \<or> vstr_bytes l = vstr_bytes r)"

text \<open>The loop over the excluded keys: \<open>seen\<close> holds the keys before the current one and
  \<open>bytes\<close> their total length.\<close>

fun excluded_keys_valid :: "vstr list \<Rightarrow> vstr list \<Rightarrow> size_t \<Rightarrow> bool" where
  "excluded_keys_valid [] seen bytes = True"
| "excluded_keys_valid (key # keys) seen bytes =
     (if vstr_data_null key \<or> vstr_len key = 0 \<or>
         vstr_len key > INBOX_CLAIM_MAX_EXCLUDED_BYTES - bytes then False
      else if \<exists>k \<in> set seen. flow_inbox_view_equal key k then False
      else excluded_keys_valid keys (seen @ [key]) (bytes + vstr_len key))"

definition flow_inbox_claim_request_valid :: "claim_request option \<Rightarrow> bool" where
  "flow_inbox_claim_request_valid p =
     (case p of
        None \<Rightarrow> False
      | Some q \<Rightarrow>
          if cq_size q \<noteq> ExactSize \<or> cq_version q \<noteq> INBOX_API_VERSION then False
          else if cq_ordering q = ORDER_GLOBAL then partition_count (cq_excluded q) = 0
          else if cq_ordering q \<noteq> ORDER_PARTITION_KEY \<or>
                  partition_count (cq_excluded q) > INBOX_CLAIM_MAX_EXCLUDED_PARTITIONS \<or>
                  (partition_count (cq_excluded q) \<noteq> 0 \<and>
                   (case cq_excluded q of NullPartitions n \<Rightarrow> True | Partitions ks \<Rightarrow> False))
          then False
          else excluded_keys_valid (partition_keys (cq_excluded q)) [] 0)"

definition flow_inbox_claim_partition_excluded :: "inbox_record \<Rightarrow> claim_request \<Rightarrow> bool" where
  "flow_inbox_claim_partition_excluded rec q =
     (if cq_ordering q \<noteq> ORDER_PARTITION_KEY then False
      else \<exists>k \<in> set (partition_keys (cq_excluded q)).
             flow_inbox_view_equal (ir_partition_key rec) k)"

definition flow_inbox_record_valid :: "inbox_record option \<Rightarrow> status" where
  "flow_inbox_record_valid p =
     (case p of
        None \<Rightarrow> SALTS_EINVAL
      | Some r \<Rightarrow>
          if ir_size r \<noteq> ExactSize \<or> ir_version r \<noteq> INBOX_API_VERSION then SALTS_EINVAL
          else if ir_envelope_schema r = None \<or>
                  str_of (ir_envelope_schema r) \<noteq> INBOX_RECORD_SCHEMA \<or>
                  ir_envelope_schema_version r \<noteq> INBOX_RECORD_SCHEMA_VERSION
          then SALTS_EPROTO
          else if vstr_data_null (ir_source_id r) \<or> vstr_len (ir_source_id r) = 0 \<or>
                  vstr_data_null (ir_partition_key r) \<or> vstr_len (ir_partition_key r) = 0 \<or>
                  vstr_data_null (ir_admission_id r) \<or> vstr_len (ir_admission_id r) = 0 \<or>
                  (vstr_len (ir_correlation r) \<noteq> 0 \<and> vstr_data_null (ir_correlation r)) \<or>
                  (vstr_len (ir_payload r) \<noteq> 0 \<and> vstr_data_null (ir_payload r))
          then SALTS_EINVAL
          else if cd_size (ir_content r) \<noteq> ExactSize \<or> cd_domain (ir_content r) \<noteq> DOMAIN_DATA \<or>
                  cd_flags (ir_content r) AND CONTENT_SCHEMA_DECLARED = 0
          then SALTS_EINVAL
          else turbo_flow_content_descriptor_check (Some (ir_content r)))"

definition turbo_flow_inbox_memory_config_default :: inbox_memory_config where
  "turbo_flow_inbox_memory_config_default =
     \<lparr>mc_size = ExactSize, mc_version = INBOX_API_VERSION, mc_max_records = 1024,
      mc_max_total_bytes = 64 * 1024 * 1024, mc_max_record_bytes = 1024 * 1024,
      mc_max_claims = 64\<rparr>"

text \<open>A slot is a pointer and a \<open>bool\<close>: sixteen bytes on the modelled targets.\<close>

definition sizeof_memory_slot :: size_t where "sizeof_memory_slot = 16"

definition flow_inbox_memory_config_valid :: "inbox_memory_config option \<Rightarrow> bool" where
  "flow_inbox_memory_config_valid p =
     (case p of
        None \<Rightarrow> False
      | Some c \<Rightarrow>
          mc_size c = ExactSize \<and> mc_version c = INBOX_API_VERSION \<and> mc_max_records c \<noteq> 0 \<and>
          mc_max_records c \<le> INBOX_MEMORY_MAX_RECORDS \<and>
          mc_max_records c \<le> SIZE_MAX div sizeof_memory_slot \<and>
          mc_max_total_bytes c \<noteq> 0 \<and> mc_max_total_bytes c \<le> INBOX_MEMORY_MAX_TOTAL_BYTES \<and>
          mc_max_record_bytes c \<noteq> 0 \<and> mc_max_record_bytes c \<le> mc_max_total_bytes c \<and>
          mc_max_claims c \<noteq> 0 \<and> mc_max_claims c \<le> mc_max_records c)"

definition flow_inbox_record_equal :: "inbox_record \<Rightarrow> inbox_record \<Rightarrow> bool" where
  "flow_inbox_record_equal l r \<longleftrightarrow>
     ir_source_sequence l = ir_source_sequence r \<and> ir_timestamp_ns l = ir_timestamp_ns r \<and>
     ir_message_type l = ir_message_type r \<and> ir_message_flags l = ir_message_flags r \<and>
     flow_inbox_view_equal (ir_source_id l) (ir_source_id r) \<and>
     flow_inbox_view_equal (ir_partition_key l) (ir_partition_key r) \<and>
     flow_inbox_view_equal (ir_admission_id l) (ir_admission_id r) \<and>
     flow_inbox_view_equal (ir_correlation l) (ir_correlation r) \<and>
     flow_inbox_view_equal (ir_payload l) (ir_payload r) \<and>
     cd_domain (ir_content l) = cd_domain (ir_content r) \<and>
     cd_profile (ir_content l) = cd_profile (ir_content r) \<and>
     cd_encoding (ir_content l) = cd_encoding (ir_content r) \<and>
     cd_flags (ir_content l) = cd_flags (ir_content r) \<and>
     cd_schema_version (ir_content l) = cd_schema_version (ir_content r) \<and>
     cstr (cd_media_type (ir_content l)) = cstr (cd_media_type (ir_content r)) \<and>
     cstr (cd_schema_name (ir_content l)) = cstr (cd_schema_name (ir_content r)) \<and>
     cstr (cd_type_name (ir_content l)) = cstr (cd_type_name (ir_content r)) \<and>
     cstr (cd_identity (ir_content l)) = cstr (cd_identity (ir_content r))"

section \<open>The memory provider\<close>

subsection \<open>Copying and finding records\<close>

definition slice :: "nat \<Rightarrow> nat \<Rightarrow> 'a list \<Rightarrow> 'a list" where
  "slice off n bs = take n (drop off bs)"

text \<open>The five byte fields are laid out one after the other in one storage buffer and the
  views of the copy point into it.\<close>

definition flow_inbox_memory_record_copy ::
    "bool \<Rightarrow> inbox_record \<Rightarrow> size_t \<Rightarrow> memory_record option" where
  "flow_inbox_memory_record_copy alloc_ok src retained =
     (if \<not> alloc_ok then None
      else
        (let a = unat (vstr_len (ir_source_id src));
             b = unat (vstr_len (ir_partition_key src));
             c = unat (vstr_len (ir_admission_id src));
             d = unat (vstr_len (ir_correlation src));
             e = unat (vstr_len (ir_payload src));
             bytes = vstr_bytes (ir_source_id src) @ vstr_bytes (ir_partition_key src) @
                     vstr_bytes (ir_admission_id src) @ vstr_bytes (ir_correlation src) @
                     vstr_bytes (ir_payload src)
         in Some
           \<lparr>mr_record_id = 0, mr_claim_token = 0, mr_failure_status = SALTS_OK,
            mr_failure_kind = FAILURE_PROCESSING, mr_terminal_kind = TERMINAL_ZERO,
            mr_phase = RECORD_PENDING, mr_retained_bytes = retained, mr_storage = bytes,
            mr_view = src\<lparr>ir_envelope_schema := Some INBOX_RECORD_SCHEMA,
              ir_source_id := View (slice 0 a bytes),
              ir_partition_key := View (slice a b bytes),
              ir_admission_id := View (slice (a + b) c bytes),
              ir_correlation := View (slice (a + b + c) d bytes),
              ir_payload := View (slice (a + b + c + d) e bytes)\<rparr>\<rparr>))"

definition slot_holds :: "(memory_record \<Rightarrow> bool) \<Rightarrow> memory_slot \<Rightarrow> bool" where
  "slot_holds P s = (case sl_record s of None \<Rightarrow> False | Some r \<Rightarrow> P r)"

definition flow_inbox_memory_find :: "flow_inbox_memory \<Rightarrow> u64 \<Rightarrow> (nat \<times> memory_record) option" where
  "flow_inbox_memory_find m rid =
     (case first_index (slot_holds (\<lambda>r. mr_record_id r = rid)) (im_records m) of
        None \<Rightarrow> None
      | Some i \<Rightarrow> Some (i, the (sl_record (im_records m ! i))))"

definition same_admission :: "inbox_record \<Rightarrow> memory_record \<Rightarrow> bool" where
  "same_admission src r \<longleftrightarrow>
     flow_inbox_view_equal (ir_source_id (mr_view r)) (ir_source_id src) \<and>
     flow_inbox_view_equal (ir_admission_id (mr_view r)) (ir_admission_id src)"

definition flow_inbox_memory_find_admission ::
    "flow_inbox_memory \<Rightarrow> inbox_record \<Rightarrow> memory_record option" where
  "flow_inbox_memory_find_admission m src =
     (case first_index (slot_holds (same_admission src)) (im_records m) of
        None \<Rightarrow> None
      | Some i \<Rightarrow> sl_record (im_records m ! i))"

definition put_record :: "nat \<Rightarrow> memory_record \<Rightarrow> flow_inbox_memory \<Rightarrow> flow_inbox_memory" where
  "put_record i r m = m\<lparr>im_records := (im_records m)[i := (im_records m ! i)\<lparr>sl_record := Some r\<rparr>]\<rparr>"

definition flow_inbox_memory_release_reservation ::
    "flow_inbox_memory \<Rightarrow> nat \<Rightarrow> size_t \<Rightarrow> flow_inbox_memory" where
  "flow_inbox_memory_release_reservation m i bytes =
     m\<lparr>im_records := (im_records m)[i := (im_records m ! i)\<lparr>sl_reserved := False\<rparr>],
       im_reserved_records := im_reserved_records m - 1,
       im_reserved_bytes := im_reserved_bytes m - bytes\<rparr>"

subsection \<open>Admission\<close>

text \<open>The bytes a record retains, or \<open>SALTS_ERANGE\<close> when their sum exceeds \<open>SIZE_MAX\<close>.\<close>

definition admit_add :: "status \<times> size_t \<Rightarrow> size_t \<Rightarrow> status \<times> size_t" where
  "admit_add acc len =
     (case acc of (st, retained) \<Rightarrow>
        if st \<noteq> SALTS_OK then (st, retained)
        else if len > SIZE_MAX - retained then (SALTS_ERANGE, retained)
        else (SALTS_OK, retained + len))"

definition admit_size :: "inbox_record \<Rightarrow> status \<times> size_t" where
  "admit_size src =
     (let first =
        (if vstr_len (ir_source_id src) > SIZE_MAX - vstr_len (ir_partition_key src)
         then (SALTS_ERANGE, 0)
         else (SALTS_OK, vstr_len (ir_source_id src) + vstr_len (ir_partition_key src)))
      in admit_add (admit_add (admit_add first (vstr_len (ir_admission_id src)))
           (vstr_len (ir_correlation src))) (vstr_len (ir_payload src)))"

text \<open>What the first critical section of an admission decides: a final result with the record
  id for the receipt, or a reservation of a slot, its bytes and a record id.\<close>

datatype admit_decision = AdmitDone status "u64 option" | AdmitReserved nat size_t u64

definition slot_free :: "memory_slot \<Rightarrow> bool" where
  "slot_free s \<longleftrightarrow> sl_record s = None \<and> \<not> sl_reserved s"

definition admit_reserve ::
    "flow_inbox_memory \<Rightarrow> inbox_record \<Rightarrow> flow_inbox_memory \<times> admit_decision" where
  "admit_reserve m src =
     (case admit_size src of (sz_rc, retained) \<Rightarrow>
      case flow_inbox_memory_find_admission m src of
        Some existing \<Rightarrow>
          (if flow_inbox_record_equal (mr_view existing) src
           then (m, AdmitDone SALTS_OK (Some (mr_record_id existing)))
           else (m, AdmitDone SALTS_EPROTO None))
      | None \<Rightarrow>
          if \<not> im_accepting m then (m, AdmitDone SALTS_ESHUTDOWN None)
          else if sz_rc \<noteq> SALTS_OK then (m, AdmitDone sz_rc None)
          else if retained > mc_max_record_bytes (im_config m) then (m, AdmitDone SALTS_ENOSPC None)
          else if im_admitted m = UINT64_MAX \<or> im_record_id_exhausted m
          then (m, AdmitDone SALTS_ERANGE None)
          else if im_live_records m + im_history_records m \<ge> mc_max_records (im_config m) \<or>
                  retained > mc_max_total_bytes (im_config m) - im_retained_bytes m
          then (m, AdmitDone SALTS_ENOSPC None)
          else if im_reserved_records m \<ge>
                    mc_max_records (im_config m) - im_live_records m - im_history_records m \<or>
                  im_reserved_bytes m > mc_max_total_bytes (im_config m) - im_retained_bytes m \<or>
                  retained >
                    mc_max_total_bytes (im_config m) - im_retained_bytes m - im_reserved_bytes m
          then (m, AdmitDone SALTS_EBUSY None)
          else (case first_index slot_free (im_records m) of
                  None \<Rightarrow> (m, AdmitDone SALTS_EPROTO None)
                | Some i \<Rightarrow>
                    (let rid = im_next_record_id m;
                         m' = m\<lparr>im_records :=
                                 (im_records m)[i := (im_records m ! i)\<lparr>sl_reserved := True\<rparr>],
                               im_record_id_exhausted :=
                                 im_record_id_exhausted m \<or> im_next_record_id m = UINT64_MAX,
                               im_next_record_id :=
                                 (if im_next_record_id m = UINT64_MAX then im_next_record_id m
                                  else im_next_record_id m + 1),
                               im_reserved_records := im_reserved_records m + 1,
                               im_reserved_bytes := im_reserved_bytes m + retained\<rparr>
                     in (m', if rid = 0 then AdmitDone SALTS_OK None
                             else AdmitReserved i retained rid))))"

text \<open>The second critical section: publish the copy in the reserved slot unless the same
  admission was published meanwhile.\<close>

definition admit_commit ::
    "flow_inbox_memory \<Rightarrow> inbox_record \<Rightarrow> nat \<Rightarrow> size_t \<Rightarrow> memory_record \<Rightarrow>
     flow_inbox_memory \<times> u64 option \<times> status" where
  "admit_commit m src i retained rec =
     (case flow_inbox_memory_find_admission m src of
        Some existing \<Rightarrow>
          (flow_inbox_memory_release_reservation m i retained,
           if flow_inbox_record_equal (mr_view existing) src
           then (Some (mr_record_id existing), SALTS_OK) else (None, SALTS_EPROTO))
      | None \<Rightarrow>
          if i \<ge> length (im_records m) \<or> \<not> sl_reserved (im_records m ! i) \<or>
             sl_record (im_records m ! i) \<noteq> None
          then (flow_inbox_memory_release_reservation m i retained, None, SALTS_EPROTO)
          else
            (flow_inbox_memory_release_reservation
               ((put_record i rec m)\<lparr>im_retained_bytes := im_retained_bytes m + retained,
                  im_live_records := im_live_records m + 1,
                  im_admitted := im_admitted m + 1\<rparr>) i retained,
             Some (mr_record_id rec), SALTS_OK))"

definition admit_abort :: "flow_inbox_memory \<Rightarrow> nat \<Rightarrow> size_t \<Rightarrow> flow_inbox_memory" where
  "admit_abort m i retained = flow_inbox_memory_release_reservation m i retained"

definition receipt_with :: "inbox_receipt \<Rightarrow> u64 option \<Rightarrow> inbox_receipt" where
  "receipt_with rp rid = (case rid of None \<Rightarrow> rp | Some x \<Rightarrow> rp\<lparr>rp_record_id := x\<rparr>)"

definition flow_inbox_memory_admit ::
    "bool \<Rightarrow> flow_inbox_memory \<Rightarrow> inbox_record \<Rightarrow> inbox_receipt \<Rightarrow>
     flow_inbox_memory \<times> inbox_receipt \<times> status" where
  "flow_inbox_memory_admit alloc_ok m src receipt =
     (case admit_reserve m src of
        (m1, AdmitDone rc rid) \<Rightarrow> (m1, receipt_with receipt rid, rc)
      | (m1, AdmitReserved i retained rid) \<Rightarrow>
          (case flow_inbox_memory_record_copy alloc_ok src retained of
             None \<Rightarrow> (admit_abort m1 i retained, receipt, SALTS_ENOMEM)
           | Some rec \<Rightarrow>
               (case admit_commit m1 src i retained (rec\<lparr>mr_record_id := rid\<rparr>) of
                  (m2, rid', rc) \<Rightarrow> (m2, receipt_with receipt rid', rc))))"

subsection \<open>Claims\<close>

text \<open>The scanning loops keep the matching record with the least id, here with its slot index.\<close>

fun least_record :: "(memory_record \<Rightarrow> bool) \<Rightarrow> nat \<Rightarrow> (nat \<times> memory_record) option \<Rightarrow>
    memory_slot list \<Rightarrow> (nat \<times> memory_record) option" where
  "least_record P i best [] = best"
| "least_record P i best (s # ss) =
     least_record P (Suc i)
       (case sl_record s of
          None \<Rightarrow> best
        | Some r \<Rightarrow>
            if P r \<and> (case best of None \<Rightarrow> True | Some (_, b) \<Rightarrow> mr_record_id r < mr_record_id b)
            then Some (i, r) else best) ss"

definition claimable :: "claim_request \<Rightarrow> memory_record \<Rightarrow> bool" where
  "claimable q r \<longleftrightarrow>
     mr_phase r = RECORD_PENDING \<and> \<not> flow_inbox_claim_partition_excluded (mr_view r) q"

definition flow_inbox_memory_claim_select ::
    "flow_inbox_memory \<Rightarrow> claim_request option \<Rightarrow> inbox_claim \<Rightarrow>
     flow_inbox_memory \<times> inbox_claim \<times> status" where
  "flow_inbox_memory_claim_select m request claim =
     (if \<not> flow_inbox_claim_request_valid request then (m, claim, SALTS_EINVAL)
      else
        (case least_record (claimable (the request)) 0 None (im_records m) of
           None \<Rightarrow> (m, claim, SALTS_ENOENT)
         | Some (i, r) \<Rightarrow>
             if im_in_flight_claims m \<ge> mc_max_claims (im_config m) then (m, claim, SALTS_ENOSPC)
             else if im_claim_token_exhausted m then (m, claim, SALTS_ERANGE)
             else
               (let token = im_next_claim_token m;
                    m' = (put_record i (r\<lparr>mr_claim_token := token, mr_phase := RECORD_CLAIMED\<rparr>) m)
                           \<lparr>im_claim_token_exhausted :=
                              im_claim_token_exhausted m \<or> im_next_claim_token m = UINT64_MAX,
                            im_next_claim_token :=
                              (if im_next_claim_token m = UINT64_MAX then im_next_claim_token m
                               else im_next_claim_token m + 1),
                            im_in_flight_claims := im_in_flight_claims m + 1\<rparr>
                in (m', claim\<lparr>cl_record_id := mr_record_id r, cl_claim_token := token,
                              cl_record := mr_view r\<rparr>, SALTS_OK))))"

definition flow_inbox_memory_claim ::
    "flow_inbox_memory \<Rightarrow> inbox_claim \<Rightarrow> flow_inbox_memory \<times> inbox_claim \<times> status" where
  "flow_inbox_memory_claim m claim =
     flow_inbox_memory_claim_select m (Some INBOX_CLAIM_REQUEST_INIT) claim"

definition flow_inbox_memory_claim_ex ::
    "flow_inbox_memory \<Rightarrow> claim_request option \<Rightarrow> inbox_claim \<Rightarrow>
     flow_inbox_memory \<times> inbox_claim \<times> status" where
  "flow_inbox_memory_claim_ex m request claim = flow_inbox_memory_claim_select m request claim"

subsection \<open>Settlement\<close>

definition flow_inbox_memory_complete ::
    "flow_inbox_memory \<Rightarrow> u64 \<Rightarrow> u64 \<Rightarrow> flow_inbox_memory \<times> status" where
  "flow_inbox_memory_complete m rid token =
     (case flow_inbox_memory_find m rid of
        None \<Rightarrow> (m, SALTS_EALREADY)
      | Some (i, r) \<Rightarrow>
          if mr_phase r \<noteq> RECORD_CLAIMED \<or> mr_claim_token r \<noteq> token then (m, SALTS_EALREADY)
          else if im_completed m = UINT64_MAX then (m, SALTS_ERANGE)
          else ((put_record i (r\<lparr>mr_phase := RECORD_TOMBSTONE, mr_claim_token := 0,
                                mr_terminal_kind := TERMINAL_COMPLETED\<rparr>) m)
                  \<lparr>im_in_flight_claims := im_in_flight_claims m - 1,
                   im_live_records := im_live_records m - 1,
                   im_history_records := im_history_records m + 1,
                   im_completed := im_completed m + 1\<rparr>, SALTS_OK))"

definition flow_inbox_memory_fail ::
    "flow_inbox_memory \<Rightarrow> u64 \<Rightarrow> u64 \<Rightarrow> status \<Rightarrow> flow_inbox_memory \<times> status" where
  "flow_inbox_memory_fail m rid token st =
     (case flow_inbox_memory_find m rid of
        None \<Rightarrow> (m, SALTS_EALREADY)
      | Some (i, r) \<Rightarrow>
          if mr_phase r \<noteq> RECORD_CLAIMED \<or> mr_claim_token r \<noteq> token then (m, SALTS_EALREADY)
          else if im_failed m = UINT64_MAX then (m, SALTS_ERANGE)
          else ((put_record i (r\<lparr>mr_phase := RECORD_FAILED, mr_failure_status := st,
                                mr_failure_kind := FAILURE_PROCESSING\<rparr>) m)
                  \<lparr>im_in_flight_claims := im_in_flight_claims m - 1,
                   im_failed := im_failed m + 1\<rparr>, SALTS_OK))"

definition flow_inbox_memory_retry ::
    "flow_inbox_memory \<Rightarrow> u64 \<Rightarrow> flow_inbox_memory \<times> status" where
  "flow_inbox_memory_retry m rid =
     (case flow_inbox_memory_find m rid of
        None \<Rightarrow> (m, SALTS_ENOENT)
      | Some (i, r) \<Rightarrow>
          if mr_phase r \<noteq> RECORD_FAILED then (m, SALTS_EBUSY)
          else if im_retried m = UINT64_MAX then (m, SALTS_ERANGE)
          else ((put_record i (r\<lparr>mr_phase := RECORD_PENDING, mr_failure_status := SALTS_OK,
                                mr_failure_kind := FAILURE_PROCESSING\<rparr>) m)
                  \<lparr>im_retried := im_retried m + 1\<rparr>, SALTS_OK))"

definition flow_inbox_memory_discard ::
    "flow_inbox_memory \<Rightarrow> u64 \<Rightarrow> flow_inbox_memory \<times> status" where
  "flow_inbox_memory_discard m rid =
     (case flow_inbox_memory_find m rid of
        None \<Rightarrow> (m, SALTS_ENOENT)
      | Some (i, r) \<Rightarrow>
          if mr_phase r \<noteq> RECORD_FAILED then (m, SALTS_EBUSY)
          else if im_discarded m = UINT64_MAX then (m, SALTS_ERANGE)
          else ((put_record i (r\<lparr>mr_phase := RECORD_TOMBSTONE,
                                mr_terminal_kind := TERMINAL_DISCARDED\<rparr>) m)
                  \<lparr>im_live_records := im_live_records m - 1,
                   im_history_records := im_history_records m + 1,
                   im_discarded := im_discarded m + 1\<rparr>, SALTS_OK))"

definition flow_inbox_memory_forget ::
    "flow_inbox_memory \<Rightarrow> u64 \<Rightarrow> flow_inbox_memory \<times> status" where
  "flow_inbox_memory_forget m rid =
     (case flow_inbox_memory_find m rid of
        None \<Rightarrow> (m, SALTS_ENOENT)
      | Some (i, r) \<Rightarrow>
          if mr_phase r \<noteq> RECORD_TOMBSTONE then (m, SALTS_EBUSY)
          else if sl_reserved (im_records m ! i) then (m, SALTS_EPROTO)
          else (m\<lparr>im_records := (im_records m)[i := (im_records m ! i)\<lparr>sl_record := None\<rparr>],
                  im_history_records := im_history_records m - 1,
                  im_retained_bytes := im_retained_bytes m - mr_retained_bytes r\<rparr>, SALTS_OK))"

subsection \<open>Scans, close, snapshot, destroy\<close>

text \<open>The scans fill the caller's entry array from the front and count the entries written.\<close>

fun scan_failed_loop ::
    "memory_slot list \<Rightarrow> u64 \<Rightarrow> failed_entry list \<Rightarrow> failed_entry list \<times> nat" where
  "scan_failed_loop slots cursor [] = ([], 0)"
| "scan_failed_loop slots cursor (e # es) =
     (case least_record (\<lambda>r. mr_phase r = RECORD_FAILED \<and> mr_record_id r > cursor) 0 None slots of
        None \<Rightarrow> (e # es, 0)
      | Some (i, r) \<Rightarrow>
          (case scan_failed_loop slots (mr_record_id r) es of (es', n) \<Rightarrow>
             (e\<lparr>fe_record_id := mr_record_id r, fe_status := mr_failure_status r,
                fe_kind := mr_failure_kind r\<rparr> # es', Suc n)))"

definition flow_inbox_memory_scan_failed ::
    "flow_inbox_memory \<Rightarrow> u64 \<Rightarrow> failed_entry list \<Rightarrow> failed_entry list \<times> nat \<times> status" where
  "flow_inbox_memory_scan_failed m cursor entries =
     (case scan_failed_loop (im_records m) cursor entries of (es, n) \<Rightarrow> (es, n, SALTS_OK))"

fun scan_history_loop ::
    "memory_slot list \<Rightarrow> u64 \<Rightarrow> history_entry list \<Rightarrow> history_entry list \<times> nat" where
  "scan_history_loop slots cursor [] = ([], 0)"
| "scan_history_loop slots cursor (e # es) =
     (case least_record (\<lambda>r. mr_phase r = RECORD_TOMBSTONE \<and> mr_record_id r > cursor) 0 None slots of
        None \<Rightarrow> (e # es, 0)
      | Some (i, r) \<Rightarrow>
          (case scan_history_loop slots (mr_record_id r) es of (es', n) \<Rightarrow>
             (e\<lparr>he_record_id := mr_record_id r, he_kind := mr_terminal_kind r\<rparr> # es', Suc n)))"

definition flow_inbox_memory_scan_history ::
    "flow_inbox_memory \<Rightarrow> u64 \<Rightarrow> history_entry list \<Rightarrow> history_entry list \<times> nat \<times> status" where
  "flow_inbox_memory_scan_history m cursor entries =
     (case scan_history_loop (im_records m) cursor entries of (es, n) \<Rightarrow> (es, n, SALTS_OK))"

definition flow_inbox_memory_close :: "flow_inbox_memory \<Rightarrow> flow_inbox_memory \<times> status" where
  "flow_inbox_memory_close m =
     (if im_reserved_records m \<noteq> 0 then (m, SALTS_EBUSY)
      else (m\<lparr>im_accepting := False\<rparr>, SALTS_OK))"

fun snapshot_count :: "memory_slot list \<Rightarrow> inbox_snapshot \<Rightarrow> inbox_snapshot" where
  "snapshot_count [] sn = sn"
| "snapshot_count (s # ss) sn =
     (case sl_record s of
        None \<Rightarrow> snapshot_count ss sn
      | Some r \<Rightarrow>
          if mr_phase r = RECORD_PENDING
          then snapshot_count ss (sn\<lparr>sn_pending_records := sn_pending_records sn + 1\<rparr>)
          else if mr_phase r = RECORD_FAILED
          then snapshot_count ss (sn\<lparr>sn_failed_records := sn_failed_records sn + 1\<rparr>)
          else snapshot_count ss sn)"

definition flow_inbox_memory_snapshot ::
    "flow_inbox_memory \<Rightarrow> inbox_snapshot \<Rightarrow> inbox_snapshot \<times> status" where
  "flow_inbox_memory_snapshot m sn =
     (snapshot_count (im_records m)
        (sn\<lparr>sn_generation := 1, sn_accepting := (if im_accepting m then 1 else 0),
           sn_records := im_live_records m, sn_history_records := im_history_records m,
           sn_in_flight_claims := im_in_flight_claims m, sn_retained_bytes := im_retained_bytes m,
           sn_admitted := im_admitted m, sn_completed := im_completed m, sn_failed := im_failed m,
           sn_retried := im_retried m, sn_discarded := im_discarded m\<rparr>), SALTS_OK)"

text \<open>On success the provider's memory is released; the model drops the state.\<close>

definition flow_inbox_memory_destroy ::
    "flow_inbox_memory \<Rightarrow> flow_inbox_memory option \<times> status" where
  "flow_inbox_memory_destroy m =
     (if im_accepting m \<or> im_live_records m \<noteq> 0 \<or> im_reserved_records m \<noteq> 0 \<or>
         im_in_flight_claims m \<noteq> 0
      then (Some m, SALTS_EBUSY) else (None, SALTS_OK))"

definition empty_inbox_memory :: "inbox_memory_config \<Rightarrow> flow_inbox_memory" where
  "empty_inbox_memory c =
     \<lparr>im_records = replicate (unat (mc_max_records c)) \<lparr>sl_record = None, sl_reserved = False\<rparr>,
      im_config = c, im_retained_bytes = 0, im_reserved_bytes = 0, im_reserved_records = 0,
      im_live_records = 0, im_history_records = 0, im_in_flight_claims = 0,
      im_next_record_id = 1, im_next_claim_token = 1, im_admitted = 0, im_completed = 0,
      im_failed = 0, im_retried = 0, im_discarded = 0, im_accepting = True,
      im_record_id_exhausted = False, im_claim_token_exhausted = False\<rparr>"

end
