(* ===== verification/Flow_Inbox_Inv.thy ===== *)
theory Flow_Inbox_Inv
  imports Flow_Inbox
begin

unbundle bit_operations_syntax

text \<open>
  The invariant of the memory provider under every interleaving of its critical sections.

  A \<open>flight\<close> is an admission between its two critical sections: the record being copied, the
  slot and bytes reserved for it and the record id it will publish.  \<open>inbox_step\<close> is the step
  relation of the provider with any number of such admissions in flight; \<open>inbox_inv\<close> relates
  the provider's counters, slots and ids to the flights, and every reachable state satisfies it.
\<close>

section \<open>Slots\<close>

definition holds :: "memory_slot list \<Rightarrow> nat \<Rightarrow> memory_record \<Rightarrow> bool" where
  "holds ss i r \<longleftrightarrow> i < length ss \<and> sl_record (ss ! i) = Some r"

abbreviation put :: "memory_slot list \<Rightarrow> nat \<Rightarrow> memory_record \<Rightarrow> memory_slot list" where
  "put ss i r \<equiv> ss[i := (ss ! i)\<lparr>sl_record := Some r\<rparr>]"

definition slot_bytes :: "memory_slot \<Rightarrow> nat" where
  "slot_bytes s = (case sl_record s of None \<Rightarrow> 0 | Some r \<Rightarrow> unat (mr_retained_bytes r))"

definition in_phase :: "record_phase \<Rightarrow> memory_slot \<Rightarrow> bool" where
  "in_phase p = slot_holds (\<lambda>r. mr_phase r = p)"

definition live_slot :: "memory_slot \<Rightarrow> bool" where
  "live_slot = slot_holds (\<lambda>r. mr_phase r \<noteq> RECORD_TOMBSTONE)"

lemmas slot_preds = in_phase_def live_slot_def slot_holds_def slot_bytes_def

lemma put_slot [simp]:
  "sl_record (s\<lparr>sl_record := x\<rparr>) = x" "sl_reserved (s\<lparr>sl_record := x\<rparr>) = sl_reserved s"
  "sl_record (s\<lparr>sl_reserved := b\<rparr>) = sl_record s" "sl_reserved (s\<lparr>sl_reserved := b\<rparr>) = b"
  by simp_all

lemma holds_put: "i < length ss \<Longrightarrow> holds (put ss i r) j x \<longleftrightarrow> (if j = i then x = r else holds ss j x)"
  by (auto simp: holds_def)

lemma holds_mark: "holds (ss[i := (ss ! i)\<lparr>sl_reserved := b\<rparr>]) j x \<longleftrightarrow> holds ss j x"
  by (cases "i = j") (auto simp: holds_def nth_list_update)

lemma holds_clear:
  "i < length ss \<Longrightarrow>
   holds (ss[i := (ss ! i)\<lparr>sl_record := None\<rparr>]) j x \<longleftrightarrow> j \<noteq> i \<and> holds ss j x"
  by (auto simp: holds_def nth_list_update split: if_splits)

lemma holds_update:
  "holds (ss[i := s]) j x \<longleftrightarrow>
   (if j = i then i < length ss \<and> sl_record s = Some x else holds ss j x)"
  by (auto simp: holds_def)

lemma holds_fun: "holds ss i r \<Longrightarrow> holds ss i r' \<Longrightarrow> r = r'"
  by (auto simp: holds_def)

text \<open>Counting records and bytes after an update of one slot.\<close>

lemma count_put:
  "holds ss i r \<Longrightarrow>
   count (slot_holds Q) (put ss i r') + of_bool (Q r) = count (slot_holds Q) ss + of_bool (Q r')"
  using count_update [of i ss "slot_holds Q" "(ss ! i)\<lparr>sl_record := Some r'\<rparr>"]
  by (simp add: holds_def slot_holds_def)

lemma count_put_empty:
  "i < length ss \<Longrightarrow> sl_record (ss ! i) = None \<Longrightarrow>
   count (slot_holds Q) (put ss i r') = count (slot_holds Q) ss + of_bool (Q r')"
  using count_update [of i ss "slot_holds Q" "(ss ! i)\<lparr>sl_record := Some r'\<rparr>"]
  by (simp add: slot_holds_def)

lemma count_clear:
  "holds ss i r \<Longrightarrow>
   count (slot_holds Q) (ss[i := (ss ! i)\<lparr>sl_record := None\<rparr>]) + of_bool (Q r) =
   count (slot_holds Q) ss"
  using count_update [of i ss "slot_holds Q" "(ss ! i)\<lparr>sl_record := None\<rparr>"]
  by (simp add: holds_def slot_holds_def)

lemma count_mark:
  "count (slot_holds Q) (ss[i := (ss ! i)\<lparr>sl_reserved := b\<rparr>]) = count (slot_holds Q) ss"
proof (cases "i < length ss")
  case True
  then show ?thesis
    using count_update [of i ss "slot_holds Q" "(ss ! i)\<lparr>sl_reserved := b\<rparr>"]
    by (simp add: slot_holds_def)
qed (simp add: list_update_beyond)

lemma bytes_put:
  "holds ss i r \<Longrightarrow> mr_retained_bytes r' = mr_retained_bytes r \<Longrightarrow>
   sum_list (map slot_bytes (put ss i r')) = sum_list (map slot_bytes ss)"
  using sum_list_update_nat [of i ss slot_bytes "(ss ! i)\<lparr>sl_record := Some r'\<rparr>"]
  by (simp add: holds_def slot_bytes_def)

lemma bytes_put_empty:
  "i < length ss \<Longrightarrow> sl_record (ss ! i) = None \<Longrightarrow>
   sum_list (map slot_bytes (put ss i r')) =
     sum_list (map slot_bytes ss) + unat (mr_retained_bytes r')"
  using sum_list_update_nat [of i ss slot_bytes "(ss ! i)\<lparr>sl_record := Some r'\<rparr>"]
  by (simp add: slot_bytes_def)

lemma bytes_clear:
  "holds ss i r \<Longrightarrow>
   sum_list (map slot_bytes (ss[i := (ss ! i)\<lparr>sl_record := None\<rparr>])) + unat (mr_retained_bytes r) =
   sum_list (map slot_bytes ss)"
  using sum_list_update_nat [of i ss slot_bytes "(ss ! i)\<lparr>sl_record := None\<rparr>"]
  by (simp add: holds_def slot_bytes_def)

lemma bytes_mark:
  "sum_list (map slot_bytes (ss[i := (ss ! i)\<lparr>sl_reserved := b\<rparr>])) = sum_list (map slot_bytes ss)"
proof (cases "i < length ss")
  case True
  then show ?thesis
    using sum_list_update_nat [of i ss slot_bytes "(ss ! i)\<lparr>sl_reserved := b\<rparr>"]
    by (simp add: slot_bytes_def)
qed (simp add: list_update_beyond)

lemma find_holds:
  "flow_inbox_memory_find m rid = Some (i, r) \<Longrightarrow>
   holds (im_records m) i r \<and> mr_record_id r = rid"
  by (auto simp: flow_inbox_memory_find_def holds_def slot_holds_def dest!: first_index_SomeD
      split: option.splits)

lemma holds_count_pos: "holds ss i r \<Longrightarrow> Q r \<Longrightarrow> 0 < count (slot_holds Q) ss"
  by (rule count_nth_pos [of i]) (auto simp: holds_def slot_holds_def)

section \<open>Least records\<close>

lemma least_record_props:
  assumes "least_record P i best ss = Some (k, r)"
  shows "(\<exists>j. k = i + j \<and> holds ss j r \<and> P r) \<or> best = Some (k, r)"
  using assms
proof (induction P i best ss rule: least_record.induct)
  case (2 P i best s ss)
  then show ?case
    by (fastforce simp: holds_def split: option.splits if_splits
        intro: exI [of _ 0] exI [of _ "Suc _"])
qed simp

lemma least_record_le:
  assumes "least_record P i best ss = Some (k, r)"
  shows "(\<forall>j r'. holds ss j r' \<and> P r' \<longrightarrow> mr_record_id r \<le> mr_record_id r') \<and>
    (\<forall>b. best = Some b \<longrightarrow> mr_record_id r \<le> mr_record_id (snd b))"
  using assms
proof (induction P i best ss rule: least_record.induct)
  case (2 P i best s ss)
  let ?best = "case sl_record s of None \<Rightarrow> best
      | Some r \<Rightarrow> if P r \<and> (case best of None \<Rightarrow> True
          | Some (_, b) \<Rightarrow> mr_record_id r < mr_record_id b) then Some (i, r) else best"
  from "2.prems" have IH: "\<forall>j r'. holds ss j r' \<and> P r' \<longrightarrow> mr_record_id r \<le> mr_record_id r'"
    and best: "\<And>b. ?best = Some b \<Longrightarrow> mr_record_id r \<le> mr_record_id (snd b)"
    using "2.IH" by auto
  have "mr_record_id r \<le> mr_record_id r'" if "holds (s # ss) j r'" "P r'" for j r'
  proof (cases j)
    case 0
    with that have "sl_record s = Some r'" by (simp add: holds_def)
    with that best show ?thesis by (fastforce split: option.splits if_splits)
  next
    case (Suc j')
    with that IH show ?thesis by (auto simp: holds_def)
  qed
  moreover have "mr_record_id r \<le> mr_record_id (snd b)" if b: "best = Some b" for b
  proof (cases "?best = best")
    case True
    with b best show ?thesis by simp
  next
    case False
    then obtain a where "?best = Some (i, a)" and "mr_record_id a < mr_record_id (snd b)"
      using b by (auto split: option.splits if_splits prod.splits)
    with best show ?thesis by (fastforce dest: order_le_less_trans)
  qed
  ultimately show ?case by blast
qed (auto simp: holds_def)

lemma least_record_None:
  "least_record P i best ss = None \<longleftrightarrow> best = None \<and> (\<forall>j r. holds ss j r \<longrightarrow> \<not> P r)"
proof (induction P i best ss rule: least_record.induct)
  case (2 P i best s ss)
  have all_Suc: "(\<forall>j. Q j) \<longleftrightarrow> Q 0 \<and> (\<forall>j. Q (Suc j))" for Q :: "nat \<Rightarrow> bool"
    using less_Suc_eq_0_disj by (metis not0_implies_Suc)
  have "(\<forall>j r. holds (s # ss) j r \<longrightarrow> \<not> P r) \<longleftrightarrow>
      (\<forall>r. sl_record s = Some r \<longrightarrow> \<not> P r) \<and> (\<forall>j r. holds ss j r \<longrightarrow> \<not> P r)"
    by (subst all_Suc) (auto simp: holds_def)
  with "2.IH" show ?case
    by (auto split: option.splits if_splits)
qed (auto simp: holds_def)

lemma least_record_Some:
  assumes "least_record P 0 None ss = Some (k, r)"
  shows "holds ss k r" and "P r"
    and "holds ss j r' \<Longrightarrow> P r' \<Longrightarrow> mr_record_id r \<le> mr_record_id r'"
  using least_record_props [OF assms] least_record_le [OF assms] by auto

section \<open>Copies\<close>

text \<open>No C object is longer than \<open>SIZE_MAX\<close> bytes.\<close>

definition record_wf :: "inbox_record \<Rightarrow> bool" where
  "record_wf r \<longleftrightarrow> (\<forall>v \<in> {ir_source_id r, ir_partition_key r, ir_admission_id r, ir_correlation r,
     ir_payload r}. length (vstr_bytes v) < 2 ^ 64)"

lemma vstr_len_bytes:
  "length (vstr_bytes v) < 2 ^ 64 \<Longrightarrow> \<not> (vstr_len v \<noteq> 0 \<and> vstr_data_null v) \<Longrightarrow>
   unat (vstr_len v) = length (vstr_bytes v)"
  by (cases v) (auto simp: unat_of_nat)

lemma slice_append: "slice (length xs) (length ys) (xs @ ys @ zs) = ys"
  by (simp add: slice_def)

definition copied_view :: "inbox_record \<Rightarrow> inbox_record" where
  "copied_view src = src\<lparr>ir_envelope_schema := Some INBOX_RECORD_SCHEMA,
     ir_correlation := View (vstr_bytes (ir_correlation src)),
     ir_payload := View (vstr_bytes (ir_payload src))\<rparr>"

lemma record_valid_iff:
  "flow_inbox_record_valid (Some r) = SALTS_OK \<longleftrightarrow>
     ir_size r = ExactSize \<and> ir_version r = INBOX_API_VERSION \<and>
     ir_envelope_schema r \<noteq> None \<and> str_of (ir_envelope_schema r) = INBOX_RECORD_SCHEMA \<and>
     ir_envelope_schema_version r = INBOX_RECORD_SCHEMA_VERSION \<and>
     \<not> vstr_data_null (ir_source_id r) \<and> vstr_len (ir_source_id r) \<noteq> 0 \<and>
     \<not> vstr_data_null (ir_partition_key r) \<and> vstr_len (ir_partition_key r) \<noteq> 0 \<and>
     \<not> vstr_data_null (ir_admission_id r) \<and> vstr_len (ir_admission_id r) \<noteq> 0 \<and>
     \<not> (vstr_len (ir_correlation r) \<noteq> 0 \<and> vstr_data_null (ir_correlation r)) \<and>
     \<not> (vstr_len (ir_payload r) \<noteq> 0 \<and> vstr_data_null (ir_payload r)) \<and>
     cd_size (ir_content r) = ExactSize \<and> cd_domain (ir_content r) = DOMAIN_DATA \<and>
     cd_flags (ir_content r) AND CONTENT_SCHEMA_DECLARED \<noteq> 0 \<and>
     turbo_flow_content_descriptor_check (Some (ir_content r)) = SALTS_OK"
  unfolding flow_inbox_record_valid_def option.case
  by (simp only: guards status.distinct simp_thms de_Morgan_disj de_Morgan_conj) blast

lemma View_bytes: "\<not> vstr_data_null v \<Longrightarrow> View (vstr_bytes v) = v"
  by (cases v) auto

lemma record_lens:
  assumes valid: "flow_inbox_record_valid (Some src) = SALTS_OK" and wf: "record_wf src"
  shows "unat (vstr_len (ir_source_id src)) = length (vstr_bytes (ir_source_id src))"
    "unat (vstr_len (ir_partition_key src)) = length (vstr_bytes (ir_partition_key src))"
    "unat (vstr_len (ir_admission_id src)) = length (vstr_bytes (ir_admission_id src))"
    "unat (vstr_len (ir_correlation src)) = length (vstr_bytes (ir_correlation src))"
    "unat (vstr_len (ir_payload src)) = length (vstr_bytes (ir_payload src))"
  by (rule vstr_len_bytes; use valid [unfolded record_valid_iff] wf in \<open>auto simp: record_wf_def\<close>)+

lemma record_copy_view:
  assumes "flow_inbox_memory_record_copy True src n = Some rec"
    and valid: "flow_inbox_record_valid (Some src) = SALTS_OK" and wf: "record_wf src"
  shows "mr_view rec = copied_view src"
proof -
  note v = valid [unfolded record_valid_iff] and lens = record_lens [OF valid wf]
  have views: "View (vstr_bytes (ir_source_id src)) = ir_source_id src"
    "View (vstr_bytes (ir_partition_key src)) = ir_partition_key src"
    "View (vstr_bytes (ir_admission_id src)) = ir_admission_id src"
    using v View_bytes by blast+
  from assms(1) show ?thesis
    by (auto simp: flow_inbox_memory_record_copy_def copied_view_def lens slice_def views Let_def)
qed

lemma view_equal_bytes:
  "\<not> (vstr_len w \<noteq> 0 \<and> vstr_data_null w) \<Longrightarrow> flow_inbox_view_equal (View (vstr_bytes w)) w"
  by (cases w) (auto simp: flow_inbox_view_equal_def)

lemma str_of_schema: "str_of (Some INBOX_RECORD_SCHEMA) = INBOX_RECORD_SCHEMA"
  by (simp add: str_of_def cstr_def INBOX_RECORD_SCHEMA_def)

lemma copied_view_equal:
  assumes "flow_inbox_record_valid (Some src) = SALTS_OK"
  shows "flow_inbox_record_equal (copied_view src) src"
proof -
  note v = assms [unfolded record_valid_iff]
  have "flow_inbox_view_equal (View (vstr_bytes (ir_correlation src))) (ir_correlation src)"
    "flow_inbox_view_equal (View (vstr_bytes (ir_payload src))) (ir_payload src)"
    by (rule view_equal_bytes; use v in blast)+
  then show ?thesis
    by (auto simp: flow_inbox_record_equal_def copied_view_def) (simp_all add: flow_inbox_view_equal_def)
qed

lemma copied_view_valid:
  assumes "flow_inbox_record_valid (Some src) = SALTS_OK"
  shows "flow_inbox_record_valid (Some (copied_view src)) = SALTS_OK"
  using assms by (simp add: record_valid_iff copied_view_def str_of_schema)

lemma record_copy_fields:
  assumes "flow_inbox_memory_record_copy a src n = Some rec"
  shows "mr_retained_bytes rec = n" and "mr_phase rec = RECORD_PENDING"
  using assms by (auto simp: flow_inbox_memory_record_copy_def Let_def split: if_splits)

lemma admit_add_ok:
  "admit_add (st, n) len = (SALTS_OK, n') \<Longrightarrow>
   st = SALTS_OK \<and> unat n' = unat n + unat len"
  by (auto simp: admit_add_def add_fits_iff unat_add_bounded not_less [symmetric] split: if_splits)

lemma admit_size_ok:
  assumes "admit_size src = (SALTS_OK, n)"
  shows "unat n = unat (vstr_len (ir_source_id src)) + unat (vstr_len (ir_partition_key src)) +
    unat (vstr_len (ir_admission_id src)) + unat (vstr_len (ir_correlation src)) +
    unat (vstr_len (ir_payload src))"
proof -
  let ?first = "if vstr_len (ir_source_id src) > SIZE_MAX - vstr_len (ir_partition_key src)
    then (SALTS_ERANGE, 0)
    else (SALTS_OK, vstr_len (ir_source_id src) + vstr_len (ir_partition_key src))"
  have first: "?first = admit_add (SALTS_OK, vstr_len (ir_partition_key src)) (vstr_len (ir_source_id src))
      \<or> fst ?first \<noteq> SALTS_OK"
    by (simp add: admit_add_def add.commute)
  obtain s1 n1 where a1: "?first = (s1, n1)" by (cases ?first)
  obtain s2 n2 where a2: "admit_add (s1, n1) (vstr_len (ir_admission_id src)) = (s2, n2)"
    by (cases "admit_add (s1, n1) (vstr_len (ir_admission_id src))")
  obtain s3 n3 where a3: "admit_add (s2, n2) (vstr_len (ir_correlation src)) = (s3, n3)"
    by (cases "admit_add (s2, n2) (vstr_len (ir_correlation src))")
  have a4: "admit_add (s3, n3) (vstr_len (ir_payload src)) = (SALTS_OK, n)"
    using assms unfolding admit_size_def Let_def a1 a2 a3 .
  have 4: "s3 = SALTS_OK" "unat n = unat n3 + unat (vstr_len (ir_payload src))"
    using admit_add_ok [OF a4] by auto
  have 3: "s2 = SALTS_OK" "unat n3 = unat n2 + unat (vstr_len (ir_correlation src))"
    using admit_add_ok [OF a3 [unfolded 4]] by auto
  have 2: "s1 = SALTS_OK" "unat n2 = unat n1 + unat (vstr_len (ir_admission_id src))"
    using admit_add_ok [OF a2 [unfolded 3]] by auto
  from first a1 2 have "admit_add (SALTS_OK, vstr_len (ir_partition_key src))
      (vstr_len (ir_source_id src)) = (SALTS_OK, n1)" by auto
  from admit_add_ok [OF this] 2 3 4 show ?thesis by simp
qed

lemma record_copy_storage:
  assumes "flow_inbox_memory_record_copy a src n = Some rec" and "admit_size src = (SALTS_OK, n)"
    and valid: "flow_inbox_record_valid (Some src) = SALTS_OK" and wf: "record_wf src"
  shows "length (mr_storage rec) = unat n"
proof -
  note lens = record_lens [OF valid wf]
  show ?thesis
    using assms(1) admit_size_ok [OF assms(2)]
    by (auto simp: flow_inbox_memory_record_copy_def lens Let_def split: if_splits)
qed

section \<open>The invariant\<close>

record flight =
  fl_source :: inbox_record
  fl_slot :: nat
  fl_bytes :: size_t
  fl_record_id :: u64

definition slots_ok :: "memory_slot list \<Rightarrow> flight list \<Rightarrow> nat \<Rightarrow> bool" where
  "slots_ok ss fs n \<longleftrightarrow>
     length ss = n \<and> distinct (map fl_slot fs) \<and> (\<forall>f \<in> set fs. fl_slot f < n) \<and>
     (\<forall>i < n. sl_reserved (ss ! i) \<longleftrightarrow> i \<in> fl_slot ` set fs) \<and>
     (\<forall>i < n. sl_reserved (ss ! i) \<longrightarrow> sl_record (ss ! i) = None)"

definition id_issued :: "u64 \<Rightarrow> bool \<Rightarrow> u64 \<Rightarrow> bool" where
  "id_issued nxt exhausted x \<longleftrightarrow> x \<noteq> 0 \<and> (exhausted \<or> x < nxt)"

definition ids_ok :: "memory_slot list \<Rightarrow> flight list \<Rightarrow> u64 \<Rightarrow> bool \<Rightarrow> bool" where
  "ids_ok ss fs nxt exhausted \<longleftrightarrow>
     nxt \<noteq> 0 \<and> distinct (map fl_record_id fs) \<and>
     (\<forall>i r j r'. holds ss i r \<and> holds ss j r' \<and> mr_record_id r = mr_record_id r' \<longrightarrow> i = j) \<and>
     (\<forall>f \<in> set fs. \<forall>i r. holds ss i r \<longrightarrow> mr_record_id r \<noteq> fl_record_id f) \<and>
     (\<forall>f \<in> set fs. id_issued nxt exhausted (fl_record_id f)) \<and>
     (\<forall>i r. holds ss i r \<longrightarrow> id_issued nxt exhausted (mr_record_id r))"

definition tokens_ok :: "memory_slot list \<Rightarrow> u64 \<Rightarrow> bool \<Rightarrow> bool" where
  "tokens_ok ss nxt exhausted \<longleftrightarrow>
     nxt \<noteq> 0 \<and>
     (\<forall>i r j r'. holds ss i r \<and> holds ss j r' \<and> mr_phase r = RECORD_CLAIMED \<and>
        mr_phase r' = RECORD_CLAIMED \<and> mr_claim_token r = mr_claim_token r' \<longrightarrow> i = j) \<and>
     (\<forall>i r. holds ss i r \<and> mr_phase r = RECORD_CLAIMED \<longrightarrow>
        id_issued nxt exhausted (mr_claim_token r))"

definition same_identity :: "inbox_record \<Rightarrow> inbox_record \<Rightarrow> bool" where
  "same_identity l r \<longleftrightarrow>
     flow_inbox_view_equal (ir_source_id l) (ir_source_id r) \<and>
     flow_inbox_view_equal (ir_admission_id l) (ir_admission_id r)"

definition identity_ok :: "memory_slot list \<Rightarrow> bool" where
  "identity_ok ss \<longleftrightarrow>
     (\<forall>i r j r'. holds ss i r \<and> holds ss j r' \<and> same_identity (mr_view r) (mr_view r') \<longrightarrow> i = j)"

definition record_ok :: "size_t \<Rightarrow> memory_record \<Rightarrow> bool" where
  "record_ok limit r \<longleftrightarrow>
     flow_inbox_record_valid (Some (mr_view r)) = SALTS_OK \<and> mr_retained_bytes r \<le> limit \<and>
     length (mr_storage r) = unat (mr_retained_bytes r) \<and>
     (mr_phase r = RECORD_FAILED \<longrightarrow>
        mr_failure_status r \<noteq> SALTS_OK \<and> mr_failure_kind r = FAILURE_PROCESSING) \<and>
     (mr_phase r = RECORD_TOMBSTONE \<longrightarrow> mr_terminal_kind r \<noteq> TERMINAL_ZERO)"

definition records_ok :: "memory_slot list \<Rightarrow> size_t \<Rightarrow> bool" where
  "records_ok ss limit \<longleftrightarrow> (\<forall>i r. holds ss i r \<longrightarrow> record_ok limit r)"

definition flight_ok :: "size_t \<Rightarrow> flight \<Rightarrow> bool" where
  "flight_ok limit f \<longleftrightarrow>
     flow_inbox_record_valid (Some (fl_source f)) = SALTS_OK \<and> record_wf (fl_source f) \<and>
     admit_size (fl_source f) = (SALTS_OK, fl_bytes f) \<and> fl_bytes f \<le> limit"

definition flight_bytes :: "flight list \<Rightarrow> nat" where
  "flight_bytes fs = sum_list (map (\<lambda>f. unat (fl_bytes f)) fs)"

text \<open>Record ids are issued from one upwards, so the next id counts the ids issued.\<close>

definition ids_issued :: "u64 \<Rightarrow> bool \<Rightarrow> nat" where
  "ids_issued nxt exhausted = (if exhausted then 2 ^ 64 - 1 else unat nxt - 1)"

text \<open>The counters of the provider against its slots and flights.\<close>

definition counters_ok :: "flow_inbox_memory \<Rightarrow> flight list \<Rightarrow> bool" where
  "counters_ok m fs \<longleftrightarrow>
     unat (im_admitted m) + length fs \<le>
       ids_issued (im_next_record_id m) (im_record_id_exhausted m) \<and>
     unat (im_reserved_records m) = length fs \<and>
     unat (im_reserved_bytes m) = flight_bytes fs \<and>
     unat (im_live_records m) = count live_slot (im_records m) \<and>
     unat (im_history_records m) = count (in_phase RECORD_TOMBSTONE) (im_records m) \<and>
     unat (im_in_flight_claims m) = count (in_phase RECORD_CLAIMED) (im_records m) \<and>
     unat (im_retained_bytes m) = sum_list (map slot_bytes (im_records m))"

definition bounds_ok :: "flow_inbox_memory \<Rightarrow> bool" where
  "bounds_ok m \<longleftrightarrow>
     unat (im_live_records m) + unat (im_history_records m) + unat (im_reserved_records m)
       \<le> unat (mc_max_records (im_config m)) \<and>
     unat (im_retained_bytes m) + unat (im_reserved_bytes m)
       \<le> unat (mc_max_total_bytes (im_config m)) \<and>
     im_in_flight_claims m \<le> mc_max_claims (im_config m)"

text \<open>The ledger: every admitted record is live, completed or discarded, and every failure was
  retried, discarded or is still recorded.\<close>

definition ledger_ok :: "flow_inbox_memory \<Rightarrow> bool" where
  "ledger_ok m \<longleftrightarrow>
     unat (im_admitted m) =
       unat (im_live_records m) + unat (im_completed m) + unat (im_discarded m) \<and>
     unat (im_failed m) = unat (im_retried m) + unat (im_discarded m) +
       count (in_phase RECORD_FAILED) (im_records m) \<and>
     unat (im_history_records m) \<le> unat (im_completed m) + unat (im_discarded m)"

definition inbox_inv :: "flow_inbox_memory \<Rightarrow> flight list \<Rightarrow> bool" where
  "inbox_inv m fs \<longleftrightarrow>
     flow_inbox_memory_config_valid (Some (im_config m)) \<and>
     slots_ok (im_records m) fs (unat (mc_max_records (im_config m))) \<and>
     ids_ok (im_records m) fs (im_next_record_id m) (im_record_id_exhausted m) \<and>
     tokens_ok (im_records m) (im_next_claim_token m) (im_claim_token_exhausted m) \<and>
     identity_ok (im_records m) \<and> records_ok (im_records m) (mc_max_record_bytes (im_config m)) \<and>
     (\<forall>f \<in> set fs. flight_ok (mc_max_record_bytes (im_config m)) f) \<and>
     counters_ok m fs \<and> bounds_ok m \<and> ledger_ok m"

lemma empty_inv:
  assumes "flow_inbox_memory_config_valid (Some c)"
  shows "inbox_inv (empty_inbox_memory c) []"
proof -
  let ?s = "\<lparr>sl_record = None, sl_reserved = False\<rparr> :: memory_slot"
  have no: "\<not> holds (replicate n ?s) i r" for n i r by (simp add: holds_def)
  have bytes: "sum_list (map slot_bytes (replicate n ?s)) = 0" for n
    by (rule sum_list_replicate_zero) (simp add: slot_bytes_def)
  have "count (slot_holds Q) (replicate n ?s) = 0" for n Q
    by (simp add: count_replicate slot_holds_def)
  with assms no bytes show ?thesis
    by (simp add: inbox_inv_def empty_inbox_memory_def slots_ok_def ids_ok_def tokens_ok_def
        identity_ok_def records_ok_def counters_ok_def flight_bytes_def bounds_ok_def ledger_ok_def
        live_slot_def in_phase_def)
qed

section \<open>Preservation: changing the phase of one record\<close>

lemma ids_ok_transfer:
  assumes ok: "ids_ok ss fs nxt e"
    and orig: "\<And>j x. holds ss' j x \<Longrightarrow> \<exists>y. holds ss j y \<and> mr_record_id y = mr_record_id x"
  shows "ids_ok ss' fs nxt e"
  unfolding ids_ok_def
proof (intro conjI allI ballI impI)
  show "nxt \<noteq> 0" "distinct (map fl_record_id fs)" using ok by (auto simp: ids_ok_def)
  show "i = j" if "holds ss' i r \<and> holds ss' j r' \<and> mr_record_id r = mr_record_id r'" for i r j r'
  proof -
    from that orig obtain y y' where "holds ss i y" "holds ss j y'" "mr_record_id y = mr_record_id y'"
      by metis
    with ok show ?thesis unfolding ids_ok_def by blast
  qed
  show "mr_record_id r \<noteq> fl_record_id f" if "f \<in> set fs" "holds ss' i r" for f i r
    using orig [OF that(2)] that(1) ok unfolding ids_ok_def by metis
  show "id_issued nxt e (fl_record_id f)" if "f \<in> set fs" for f
    using that ok by (auto simp: ids_ok_def)
  show "id_issued nxt e (mr_record_id r)" if "holds ss' i r" for i r
    using orig [OF that] ok unfolding ids_ok_def by metis
qed

lemma tokens_ok_transfer:
  assumes ok: "tokens_ok ss nxt e"
    and orig: "\<And>j x. holds ss' j x \<Longrightarrow> mr_phase x = RECORD_CLAIMED \<Longrightarrow>
      \<exists>y. holds ss j y \<and> mr_phase y = RECORD_CLAIMED \<and> mr_claim_token y = mr_claim_token x"
  shows "tokens_ok ss' nxt e"
  unfolding tokens_ok_def
proof (intro conjI allI impI)
  show "nxt \<noteq> 0" using ok by (simp add: tokens_ok_def)
  show "i = j" if "holds ss' i r \<and> holds ss' j r' \<and> mr_phase r = RECORD_CLAIMED \<and>
      mr_phase r' = RECORD_CLAIMED \<and> mr_claim_token r = mr_claim_token r'" for i r j r'
  proof -
    from that orig obtain y y' where "holds ss i y" "holds ss j y'" "mr_phase y = RECORD_CLAIMED"
      "mr_phase y' = RECORD_CLAIMED" "mr_claim_token y = mr_claim_token y'"
      by metis
    with ok show ?thesis unfolding tokens_ok_def by blast
  qed
  show "id_issued nxt e (mr_claim_token r)" if "holds ss' i r \<and> mr_phase r = RECORD_CLAIMED" for i r
    using orig [of i r] that ok unfolding tokens_ok_def by metis
qed

lemma identity_ok_transfer:
  assumes ok: "identity_ok ss"
    and orig: "\<And>j x. holds ss' j x \<Longrightarrow> \<exists>y. holds ss j y \<and> mr_view y = mr_view x"
  shows "identity_ok ss'"
  unfolding identity_ok_def
proof (intro allI impI)
  fix i r j r'
  assume h: "holds ss' i r \<and> holds ss' j r' \<and> same_identity (mr_view r) (mr_view r')"
  with orig obtain y y' where "holds ss i y" "holds ss j y'" "same_identity (mr_view y) (mr_view y')"
    by metis
  with ok show "i = j" unfolding identity_ok_def by blast
qed

lemma holds_put_back:
  assumes "holds ss i r" and "holds (put ss i r') j x" and "f r' = f r"
  shows "\<exists>y. holds ss j y \<and> f y = f x"
  using assms by (cases "j = i") (auto simp: holds_def)

lemma slots_ok_put: "slots_ok ss fs n \<Longrightarrow> holds ss i r \<Longrightarrow> slots_ok (put ss i r') fs n"
  by (auto simp: slots_ok_def holds_def nth_list_update)

lemma ids_ok_put:
  "ids_ok ss fs nxt e \<Longrightarrow> holds ss i r \<Longrightarrow> mr_record_id r' = mr_record_id r \<Longrightarrow>
   ids_ok (put ss i r') fs nxt e"
  by (rule ids_ok_transfer) (auto intro: holds_put_back)

lemma tokens_ok_put:
  assumes "tokens_ok ss nxt e" and "holds ss i r" and "mr_phase r' \<noteq> RECORD_CLAIMED"
  shows "tokens_ok (put ss i r') nxt e"
proof (rule tokens_ok_transfer [OF assms(1)])
  fix j x
  assume "holds (put ss i r') j x" and "mr_phase x = RECORD_CLAIMED"
  with assms(2,3) show "\<exists>y. holds ss j y \<and> mr_phase y = RECORD_CLAIMED \<and>
      mr_claim_token y = mr_claim_token x"
    by (cases "j = i") (auto simp: holds_def)
qed

lemma identity_ok_put:
  "identity_ok ss \<Longrightarrow> holds ss i r \<Longrightarrow> mr_view r' = mr_view r \<Longrightarrow> identity_ok (put ss i r')"
  by (rule identity_ok_transfer) (auto intro: holds_put_back)

lemma records_ok_put:
  "records_ok ss l \<Longrightarrow> holds ss i r \<Longrightarrow> record_ok l r' \<Longrightarrow> records_ok (put ss i r') l"
  unfolding records_ok_def by (simp add: holds_put holds_def [of ss i])

lemmas structure_put = slots_ok_put ids_ok_put identity_ok_put records_ok_put

text \<open>The counts after a record moves between phases, in one bundle.\<close>

lemma phase_counts:
  assumes "holds ss i r"
  shows "count live_slot (put ss i r') + of_bool (mr_phase r \<noteq> RECORD_TOMBSTONE) =
      count live_slot ss + of_bool (mr_phase r' \<noteq> RECORD_TOMBSTONE)"
    and "count (in_phase p) (put ss i r') + of_bool (mr_phase r = p) =
      count (in_phase p) ss + of_bool (mr_phase r' = p)"
  unfolding live_slot_def in_phase_def by (rule count_put [OF assms])+

lemma holds_live_pos: "holds ss i r \<Longrightarrow> mr_phase r \<noteq> RECORD_TOMBSTONE \<Longrightarrow> 0 < count live_slot ss"
  unfolding live_slot_def by (rule holds_count_pos)

lemma holds_phase_pos: "holds ss i r \<Longrightarrow> 0 < count (in_phase (mr_phase r)) ss"
  unfolding in_phase_def by (erule holds_count_pos) simp

lemma config_bounds:
  assumes "flow_inbox_memory_config_valid (Some c)"
  shows "unat (mc_max_records c) \<le> 2 ^ 20" and "unat (mc_max_total_bytes c) < 2 ^ 63"
    and "mc_max_record_bytes c \<le> mc_max_total_bytes c"
    and "mc_max_claims c \<le> mc_max_records c" and "0 < unat (mc_max_records c)"
proof -
  have "mc_max_records c \<le> 1048576" "mc_max_total_bytes c \<le> SIZE_MAX div 2"
    using assms by (auto simp: flow_inbox_memory_config_valid_def inbox_consts)
  moreover have "unat (SIZE_MAX div 2 :: size_t) = 2 ^ 63 - 1"
    by (simp add: unat_div unat_UINT64_MAX)
  ultimately show "unat (mc_max_records c) \<le> 2 ^ 20" and "unat (mc_max_total_bytes c) < 2 ^ 63"
    by (simp_all add: word_le_nat_alt)
qed (use assms in \<open>auto simp: flow_inbox_memory_config_valid_def unat_gt_0\<close>)

lemma inv_word_bounds:
  assumes "inbox_inv m fs"
  shows "unat (im_live_records m) + unat (im_history_records m) + unat (im_reserved_records m) \<le> 2 ^ 20"
    and "unat (im_retained_bytes m) + unat (im_reserved_bytes m) < 2 ^ 63"
    and "unat (im_in_flight_claims m) \<le> 2 ^ 20"
proof -
  have c: "flow_inbox_memory_config_valid (Some (im_config m))" and b: "bounds_ok m"
    using assms by (auto simp: inbox_inv_def)
  show "unat (im_live_records m) + unat (im_history_records m) + unat (im_reserved_records m) \<le> 2 ^ 20"
    "unat (im_retained_bytes m) + unat (im_reserved_bytes m) < 2 ^ 63"
    using b config_bounds(1,2) [OF c] by (auto simp: bounds_ok_def)
  show "unat (im_in_flight_claims m) \<le> 2 ^ 20"
    using b config_bounds(1,4) [OF c] by (auto simp: bounds_ok_def word_le_nat_alt)
qed

definition moved :: "(record_phase \<Rightarrow> bool) \<Rightarrow> memory_record \<Rightarrow> memory_record \<Rightarrow> size_t \<Rightarrow> size_t \<Rightarrow> bool"
  where
  "moved P r r' x x' \<longleftrightarrow>
     unat x' + of_bool (P (mr_phase r)) = unat x + of_bool (P (mr_phase r'))"

text \<open>One record changes its phase and the counters follow it: the shared part of claim,
  complete, fail, retry and discard.\<close>

lemma phase_change_inv:
  assumes inv: "inbox_inv m fs" and h: "holds (im_records m) i r"
    and same: "mr_record_id r' = mr_record_id r" "mr_view r' = mr_view r"
      "mr_retained_bytes r' = mr_retained_bytes r"
    and rec: "record_ok (mc_max_record_bytes (im_config m)) r'"
    and frame: "im_records m' = put (im_records m) i r'" "im_config m' = im_config m"
      "im_retained_bytes m' = im_retained_bytes m" "im_reserved_bytes m' = im_reserved_bytes m"
      "im_reserved_records m' = im_reserved_records m" "im_admitted m' = im_admitted m"
      "im_next_record_id m' = im_next_record_id m"
      "im_record_id_exhausted m' = im_record_id_exhausted m"
    and tokens: "tokens_ok (put (im_records m) i r') (im_next_claim_token m')
      (im_claim_token_exhausted m')"
    and live: "moved (\<lambda>p. p \<noteq> RECORD_TOMBSTONE) r r' (im_live_records m) (im_live_records m')"
    and tomb: "moved (\<lambda>p. p = RECORD_TOMBSTONE) r r' (im_history_records m) (im_history_records m')"
    and claimed: "moved (\<lambda>p. p = RECORD_CLAIMED) r r' (im_in_flight_claims m) (im_in_flight_claims m')"
    and cap: "im_in_flight_claims m' \<le> mc_max_claims (im_config m)"
    and settled: "unat (im_completed m') + unat (im_discarded m') + unat (im_live_records m') =
      unat (im_completed m) + unat (im_discarded m) + unat (im_live_records m)"
    and failures: "unat (im_failed m') + unat (im_retried m) + unat (im_discarded m) +
        of_bool (mr_phase r = RECORD_FAILED) =
      unat (im_failed m) + unat (im_retried m') + unat (im_discarded m') +
        of_bool (mr_phase r' = RECORD_FAILED)"
  shows "inbox_inv m' fs"
proof -
  note counts = phase_counts(1) [OF h, where r' = r'] phase_counts(2) [OF h, where r' = r']
  have "counters_ok m' fs"
    using inv frame live tomb claimed counts(1) counts(2) [of RECORD_TOMBSTONE]
      counts(2) [of RECORD_CLAIMED] bytes_put [OF h same(3)]
    by (simp add: inbox_inv_def counters_ok_def moved_def)
  moreover have "bounds_ok m'"
    using inv frame cap live tomb
    by (cases "mr_phase r = RECORD_TOMBSTONE"; cases "mr_phase r' = RECORD_TOMBSTONE";
        simp add: inbox_inv_def bounds_ok_def moved_def)
  moreover have "ledger_ok m'"
    using inv frame settled failures tomb live counts(2) [of RECORD_FAILED]
    by (cases "mr_phase r = RECORD_TOMBSTONE"; cases "mr_phase r' = RECORD_TOMBSTONE";
        simp add: inbox_inv_def ledger_ok_def moved_def)
  ultimately show ?thesis
    using inv h same rec tokens structure_put by (auto simp: inbox_inv_def frame)
qed

lemma unat_inc_small: "unat (x :: u64) \<le> 1048576 \<Longrightarrow> unat (x + 1) = Suc (unat x)"
  by (rule unat_inc_bounded [of x "1048577"]) auto

lemmas phase_simps = put_record_def moved_def inbox_inv_def records_ok_def record_ok_def
  bounds_ok_def tokens_ok_put unat_dec unat_inc unat_inc_small word_le_nat_alt

lemma complete_inv:
  assumes inv: "inbox_inv m fs"
  shows "inbox_inv (fst (flow_inbox_memory_complete m rid token)) fs"
proof (cases "snd (flow_inbox_memory_complete m rid token) = SALTS_OK")
  case True
  then obtain i r where f: "flow_inbox_memory_find m rid = Some (i, r)"
    and ph: "mr_phase r = RECORD_CLAIMED" and c: "im_completed m \<noteq> UINT64_MAX"
    and tok: "mr_claim_token r = token"
    by (auto simp: flow_inbox_memory_complete_def split: option.splits if_splits)
  from find_holds [OF f] have h: "holds (im_records m) i r" by simp
  note facts = holds_live_pos [OF h] holds_phase_pos [OF h] inv_word_bounds [OF inv] inv h ph
  have pos: "0 < unat (im_live_records m)" "0 < unat (im_in_flight_claims m)"
    using facts by (auto simp: inbox_inv_def counters_ok_def)
  show ?thesis
    by (rule phase_change_inv [OF inv h, where r' = "r\<lparr>mr_phase := RECORD_TOMBSTONE,
          mr_claim_token := 0, mr_terminal_kind := TERMINAL_COMPLETED\<rparr>"])
      (use facts f tok c pos in \<open>auto simp: flow_inbox_memory_complete_def phase_simps\<close>)
next
  case False
  with inv show ?thesis
    by (auto simp: flow_inbox_memory_complete_def split: option.splits if_splits)
qed

lemma fail_inv:
  assumes inv: "inbox_inv m fs" and st: "st \<noteq> SALTS_OK"
  shows "inbox_inv (fst (flow_inbox_memory_fail m rid token st)) fs"
proof (cases "snd (flow_inbox_memory_fail m rid token st) = SALTS_OK")
  case True
  then obtain i r where f: "flow_inbox_memory_find m rid = Some (i, r)"
    and ph: "mr_phase r = RECORD_CLAIMED" and c: "im_failed m \<noteq> UINT64_MAX"
    and tok: "mr_claim_token r = token"
    by (auto simp: flow_inbox_memory_fail_def split: option.splits if_splits)
  from find_holds [OF f] have h: "holds (im_records m) i r" by simp
  note facts = holds_phase_pos [OF h] inv_word_bounds [OF inv] inv h ph
  have pos: "0 < unat (im_in_flight_claims m)"
    using facts by (auto simp: inbox_inv_def counters_ok_def)
  show ?thesis
    by (rule phase_change_inv [OF inv h, where r' = "r\<lparr>mr_phase := RECORD_FAILED,
          mr_failure_status := st, mr_failure_kind := FAILURE_PROCESSING\<rparr>"])
      (use facts f tok c pos st in \<open>auto simp: flow_inbox_memory_fail_def phase_simps\<close>)
next
  case False
  with inv show ?thesis
    by (auto simp: flow_inbox_memory_fail_def split: option.splits if_splits)
qed

lemma retry_inv:
  assumes inv: "inbox_inv m fs"
  shows "inbox_inv (fst (flow_inbox_memory_retry m rid)) fs"
proof (cases "snd (flow_inbox_memory_retry m rid) = SALTS_OK")
  case True
  then obtain i r where f: "flow_inbox_memory_find m rid = Some (i, r)"
    and ph: "mr_phase r = RECORD_FAILED" and c: "im_retried m \<noteq> UINT64_MAX"
    by (auto simp: flow_inbox_memory_retry_def split: option.splits if_splits)
  from find_holds [OF f] have h: "holds (im_records m) i r" by simp
  show ?thesis
    by (rule phase_change_inv [OF inv h, where r' = "r\<lparr>mr_phase := RECORD_PENDING,
          mr_failure_status := SALTS_OK, mr_failure_kind := FAILURE_PROCESSING\<rparr>"])
      (use inv h f c ph in \<open>auto simp: flow_inbox_memory_retry_def phase_simps\<close>)
next
  case False
  with inv show ?thesis
    by (auto simp: flow_inbox_memory_retry_def split: option.splits if_splits)
qed

lemma discard_inv:
  assumes inv: "inbox_inv m fs"
  shows "inbox_inv (fst (flow_inbox_memory_discard m rid)) fs"
proof (cases "snd (flow_inbox_memory_discard m rid) = SALTS_OK")
  case True
  then obtain i r where f: "flow_inbox_memory_find m rid = Some (i, r)"
    and ph: "mr_phase r = RECORD_FAILED" and c: "im_discarded m \<noteq> UINT64_MAX"
    by (auto simp: flow_inbox_memory_discard_def split: option.splits if_splits)
  from find_holds [OF f] have h: "holds (im_records m) i r" by simp
  note facts = holds_live_pos [OF h] inv_word_bounds [OF inv] inv h ph
  have pos: "0 < unat (im_live_records m)"
    using facts by (auto simp: inbox_inv_def counters_ok_def)
  show ?thesis
    by (rule phase_change_inv [OF inv h, where r' = "r\<lparr>mr_phase := RECORD_TOMBSTONE,
          mr_terminal_kind := TERMINAL_DISCARDED\<rparr>"])
      (use facts f c pos in \<open>auto simp: flow_inbox_memory_discard_def phase_simps\<close>)
next
  case False
  with inv show ?thesis
    by (auto simp: flow_inbox_memory_discard_def split: option.splits if_splits)
qed

lemma id_issued_next:
  fixes nxt :: u64
  assumes "nxt \<noteq> 0" and "\<not> e"
  shows "id_issued (if nxt = UINT64_MAX then nxt else nxt + 1) (e \<or> nxt = UINT64_MAX) nxt"
    and "id_issued nxt e x \<Longrightarrow>
      id_issued (if nxt = UINT64_MAX then nxt else nxt + 1) (e \<or> nxt = UINT64_MAX) x"
    and "(if nxt = UINT64_MAX then nxt else nxt + 1) \<noteq> 0"
    and "id_issued nxt e x \<Longrightarrow> x \<noteq> nxt"
  using assms unat_inc [of nxt]
  by (auto simp: id_issued_def word_less_nat_alt split: if_splits)

lemma tokens_ok_claim:
  assumes ok: "tokens_ok ss nxt e" and h: "holds ss i r" and e: "\<not> e"
  shows "tokens_ok (put ss i (r\<lparr>mr_claim_token := nxt, mr_phase := RECORD_CLAIMED\<rparr>))
    (if nxt = UINT64_MAX then nxt else nxt + 1) (e \<or> nxt = UINT64_MAX)"
proof -
  have nz: "nxt \<noteq> 0" using ok by (simp add: tokens_ok_def)
  note step = id_issued_next [OF nz e]
  have issued: "id_issued nxt e (mr_claim_token x)" if "holds ss j x" "mr_phase x = RECORD_CLAIMED" for j x
    using ok that unfolding tokens_ok_def by blast
  have len: "i < length ss" using h by (simp add: holds_def)
  show ?thesis
    unfolding tokens_ok_def holds_put [OF len]
  proof (intro conjI allI impI, goal_cases)
    case 1
    show ?case by (rule step(3))
  next
    case (2 a x b y)
    consider "a = i" "b = i" | "a = i" "b \<noteq> i" | "a \<noteq> i" "b = i" | "a \<noteq> i" "b \<noteq> i" by blast
    then show ?case
    proof cases
      case 4
      with 2 ok show ?thesis unfolding tokens_ok_def by auto
    qed (use 2 issued [of a x] issued [of b y] step(4) [of nxt] in auto)
  next
    case (3 a x)
    then show ?case
      using issued [of a x] step(1,2) by (cases "a = i") auto
  qed
qed

lemma find_admission_holds:
  "flow_inbox_memory_find_admission m src = Some r \<Longrightarrow>
   \<exists>i. holds (im_records m) i r \<and> same_admission src r"
  "flow_inbox_memory_find_admission m src = None \<Longrightarrow> holds (im_records m) i r \<Longrightarrow>
   \<not> same_admission src r"
  by (auto simp: flow_inbox_memory_find_admission_def holds_def slot_holds_def first_index_None_iff
      split: option.splits dest!: first_index_SomeD)

lemma close_inv: "inbox_inv m fs \<Longrightarrow> inbox_inv (fst (flow_inbox_memory_close m)) fs"
  by (auto simp: flow_inbox_memory_close_def inbox_inv_def counters_ok_def bounds_ok_def ledger_ok_def)

lemma claim_select_inv:
  assumes inv: "inbox_inv m fs"
  shows "inbox_inv (fst (flow_inbox_memory_claim_select m q claim)) fs"
proof (cases "snd (snd (flow_inbox_memory_claim_select m q claim)) = SALTS_OK")
  case True
  then obtain i r where l: "least_record (claimable (the q)) 0 None (im_records m) = Some (i, r)"
    and v: "flow_inbox_claim_request_valid q"
    and cap: "im_in_flight_claims m < mc_max_claims (im_config m)"
    and ne: "\<not> im_claim_token_exhausted m"
    by (auto simp: flow_inbox_memory_claim_select_def not_le split: option.splits if_splits)
  from least_record_Some [OF l] have h: "holds (im_records m) i r" and ph: "mr_phase r = RECORD_PENDING"
    by (auto simp: claimable_def)
  have tok: "tokens_ok (im_records m) (im_next_claim_token m) (im_claim_token_exhausted m)"
    using inv by (simp add: inbox_inv_def)
  note facts = inv_word_bounds [OF inv] inv h ph tokens_ok_claim [OF tok h ne] cap
  show ?thesis
    by (rule phase_change_inv [OF inv h, where r' = "r\<lparr>mr_claim_token := im_next_claim_token m,
          mr_phase := RECORD_CLAIMED\<rparr>"])
      (use facts l v ne in \<open>auto simp: flow_inbox_memory_claim_select_def phase_simps Let_def
         word_less_nat_alt\<close>)
next
  case False
  with inv show ?thesis
    by (auto simp: flow_inbox_memory_claim_select_def Let_def split: option.splits if_splits)
qed


section \<open>Preservation: forgetting, reserving, publishing, releasing\<close>

lemma slots_ok_update:
  assumes "slots_ok ss fs n" and "i < n" and "sl_reserved s = sl_reserved (ss ! i)"
    and "sl_reserved s \<Longrightarrow> sl_record s = None"
  shows "slots_ok (ss[i := s]) fs n"
  using assms by (auto simp: slots_ok_def nth_list_update)

text \<open>Forgetting a tombstone empties its slot.\<close>

lemma forget_inv:
  assumes inv: "inbox_inv m fs"
  shows "inbox_inv (fst (flow_inbox_memory_forget m rid)) fs"
proof (cases "snd (flow_inbox_memory_forget m rid) = SALTS_OK")
  case True
  then obtain i r where f: "flow_inbox_memory_find m rid = Some (i, r)"
    and ph: "mr_phase r = RECORD_TOMBSTONE" and nr: "\<not> sl_reserved (im_records m ! i)"
    by (auto simp: flow_inbox_memory_forget_def split: option.splits if_splits)
  from find_holds [OF f] have h: "holds (im_records m) i r" by simp
  let ?m = "fst (flow_inbox_memory_forget m rid)"
  let ?ss = "(im_records m)[i := (im_records m ! i)\<lparr>sl_record := None\<rparr>]"
  have new: "im_records ?m = ?ss" "im_history_records ?m = im_history_records m - 1"
    "im_retained_bytes ?m = im_retained_bytes m - mr_retained_bytes r"
    and frame: "im_config ?m = im_config m" "im_reserved_bytes ?m = im_reserved_bytes m"
    "im_reserved_records ?m = im_reserved_records m" "im_live_records ?m = im_live_records m"
    "im_in_flight_claims ?m = im_in_flight_claims m" "im_admitted ?m = im_admitted m"
    "im_completed ?m = im_completed m" "im_failed ?m = im_failed m"
    "im_retried ?m = im_retried m" "im_discarded ?m = im_discarded m"
    "im_next_record_id ?m = im_next_record_id m" "im_next_claim_token ?m = im_next_claim_token m"
    "im_record_id_exhausted ?m = im_record_id_exhausted m"
    "im_claim_token_exhausted ?m = im_claim_token_exhausted m"
    by (simp_all add: flow_inbox_memory_forget_def f ph nr)
  have orig: "holds (im_records m) j x" if "holds ?ss j x" for j x
    using that h by (auto simp: holds_update split: if_splits)
  have len: "i < length (im_records m)" using h by (simp add: holds_def)
  have slots: "slots_ok ?ss fs (unat (mc_max_records (im_config m)))"
    by (rule slots_ok_update) (use inv len nr in \<open>auto simp: inbox_inv_def slots_ok_def\<close>)
  note counts = count_clear [OF h] bytes_clear [OF h] holds_phase_pos [OF h]
  have nums: "counters_ok m fs" "bounds_ok m" "ledger_ok m" using inv by (auto simp: inbox_inv_def)
  have hist: "unat (im_history_records m - 1) = unat (im_history_records m) - 1"
    using nums(1) counts(3) ph by (intro unat_dec) (simp add: counters_ok_def)
  have bytes: "unat (im_retained_bytes m - mr_retained_bytes r) =
      unat (im_retained_bytes m) - unat (mr_retained_bytes r)"
    using nums(1) counts(2) by (intro unat_sub_le) (simp add: counters_ok_def)
  have cnt: "count live_slot ?ss = count live_slot (im_records m)"
    "Suc (count (in_phase RECORD_TOMBSTONE) ?ss) = count (in_phase RECORD_TOMBSTONE) (im_records m)"
    "count (in_phase RECORD_CLAIMED) ?ss = count (in_phase RECORD_CLAIMED) (im_records m)"
    "count (in_phase RECORD_FAILED) ?ss = count (in_phase RECORD_FAILED) (im_records m)"
    using count_clear [OF h, of "\<lambda>r. mr_phase r \<noteq> RECORD_TOMBSTONE"]
      count_clear [OF h, of "\<lambda>r. mr_phase r = RECORD_TOMBSTONE"]
      count_clear [OF h, of "\<lambda>r. mr_phase r = RECORD_CLAIMED"]
      count_clear [OF h, of "\<lambda>r. mr_phase r = RECORD_FAILED"] ph
    by (simp_all add: live_slot_def in_phase_def)
  have "counters_ok ?m fs" using nums(1) cnt counts(2) by (auto simp: counters_ok_def new frame hist bytes)
  moreover have "bounds_ok ?m" using nums(2) by (auto simp: bounds_ok_def new frame hist bytes)
  moreover have "ledger_ok ?m" using nums(3) cnt by (auto simp: ledger_ok_def new frame hist)
  moreover have "ids_ok ?ss fs (im_next_record_id m) (im_record_id_exhausted m)"
    "tokens_ok ?ss (im_next_claim_token m) (im_claim_token_exhausted m)" "identity_ok ?ss"
    using inv orig unfolding inbox_inv_def
    by (blast intro: ids_ok_transfer tokens_ok_transfer identity_ok_transfer)+
  moreover have "records_ok ?ss (mc_max_record_bytes (im_config m))"
    using inv orig unfolding inbox_inv_def records_ok_def by blast
  ultimately show ?thesis
    using slots inv by (simp add: inbox_inv_def new frame)
next
  case False
  with inv show ?thesis
    by (auto simp: flow_inbox_memory_forget_def split: option.splits if_splits)
qed


definition reserved_state :: "flow_inbox_memory \<Rightarrow> nat \<Rightarrow> size_t \<Rightarrow> flow_inbox_memory" where
  "reserved_state m i n =
     m\<lparr>im_records := (im_records m)[i := (im_records m ! i)\<lparr>sl_reserved := True\<rparr>],
       im_record_id_exhausted := im_record_id_exhausted m \<or> im_next_record_id m = UINT64_MAX,
       im_next_record_id := (if im_next_record_id m = UINT64_MAX then im_next_record_id m
         else im_next_record_id m + 1),
       im_reserved_records := im_reserved_records m + 1,
       im_reserved_bytes := im_reserved_bytes m + n\<rparr>"

lemma reserve_guard:
  "(if c then (a, AdmitDone rc x) else y) = (b, AdmitReserved i n rid) \<longleftrightarrow>
     \<not> c \<and> y = (b, AdmitReserved i n rid)"
  "(if c then AdmitDone rc x else AdmitReserved j k z) = AdmitReserved i n rid \<longleftrightarrow>
     \<not> c \<and> j = i \<and> k = n \<and> z = rid"
  by auto

lemma admit_reserve_reserved:
  assumes res: "admit_reserve m src = (m', AdmitReserved i n rid)"
  shows "admit_size src = (SALTS_OK, n)" and "flow_inbox_memory_find_admission m src = None"
    and "im_accepting m" and "n \<le> mc_max_record_bytes (im_config m)"
    and "\<not> im_record_id_exhausted m"
    and "im_reserved_records m < mc_max_records (im_config m) - im_live_records m - im_history_records m"
    and "n \<le> mc_max_total_bytes (im_config m) - im_retained_bytes m - im_reserved_bytes m"
    and "first_index slot_free (im_records m) = Some i" and "rid = im_next_record_id m"
    and "m' = reserved_state m i n" and "im_admitted m \<noteq> UINT64_MAX"
proof -
  obtain st k where k: "admit_size src = (st, k)" by (cases "admit_size src")
  have none: "flow_inbox_memory_find_admission m src = None"
    using res by (auto simp: admit_reserve_def split: prod.splits option.splits if_splits)
  obtain j where j: "first_index slot_free (im_records m) = Some j"
    using res
    by (cases "first_index slot_free (im_records m)") (simp_all add: admit_reserve_def k none split: if_splits)
  note res [unfolded admit_reserve_def k none j Let_def prod.case option.case reserve_guard prod.inject
      reserved_state_def [symmetric]]
  then have g: "im_accepting m" "st = SALTS_OK" "k \<le> mc_max_record_bytes (im_config m)"
    "\<not> im_record_id_exhausted m" "im_admitted m \<noteq> UINT64_MAX"
    "im_reserved_records m < mc_max_records (im_config m) - im_live_records m - im_history_records m"
    "k \<le> mc_max_total_bytes (im_config m) - im_retained_bytes m - im_reserved_bytes m"
    and e: "j = i" "k = n" "rid = im_next_record_id m" "m' = reserved_state m j k"
    unfolding de_Morgan_disj not_le not_less not_not by blast+
  show "admit_size src = (SALTS_OK, n)" "flow_inbox_memory_find_admission m src = None"
    "im_accepting m" "n \<le> mc_max_record_bytes (im_config m)" "\<not> im_record_id_exhausted m"
    "im_reserved_records m < mc_max_records (im_config m) - im_live_records m - im_history_records m"
    "n \<le> mc_max_total_bytes (im_config m) - im_retained_bytes m - im_reserved_bytes m"
    "first_index slot_free (im_records m) = Some i" "rid = im_next_record_id m"
    "m' = reserved_state m i n" "im_admitted m \<noteq> UINT64_MAX"
    using k none j g e by simp_all
qed

lemma admit_reserve_done:
  assumes res: "admit_reserve m src = (m', AdmitDone rc x)" and nz: "im_next_record_id m \<noteq> 0"
  shows "m' = m"
proof -
  have "snd p = AdmitDone rc x \<longrightarrow> fst p = m" if "p = admit_reserve m src" for p
    unfolding that admit_reserve_def Let_def using nz
    by (simp split: prod.split option.split)
  from this [of "admit_reserve m src"] res show ?thesis by simp
qed

lemma slots_ok_reserve:
  assumes "slots_ok ss fs n" and "first_index slot_free ss = Some i"
  shows "slots_ok (ss[i := (ss ! i)\<lparr>sl_reserved := True\<rparr>]) (f\<lparr>fl_slot := i\<rparr> # fs) n"
    and "i < n" and "i \<notin> fl_slot ` set fs"
  using assms
  by (auto simp: slots_ok_def nth_list_update slot_free_def dest!: first_index_SomeD split: if_splits)

lemma ids_ok_mark:
  "ids_ok ss fs nxt e \<Longrightarrow> ids_ok (ss[i := (ss ! i)\<lparr>sl_reserved := b\<rparr>]) fs nxt e"
  "tokens_ok ss nxt e \<Longrightarrow> tokens_ok (ss[i := (ss ! i)\<lparr>sl_reserved := b\<rparr>]) nxt e"
  "identity_ok ss \<Longrightarrow> identity_ok (ss[i := (ss ! i)\<lparr>sl_reserved := b\<rparr>])"
  "records_ok ss l \<Longrightarrow> records_ok (ss[i := (ss ! i)\<lparr>sl_reserved := b\<rparr>]) l"
  unfolding ids_ok_def tokens_ok_def identity_ok_def records_ok_def holds_mark by assumption+

lemma ids_ok_reserve:
  assumes ok: "ids_ok ss fs nxt e" and e: "\<not> e" and f: "fl_record_id f = nxt"
  shows "ids_ok ss (f # fs) (if nxt = UINT64_MAX then nxt else nxt + 1) (e \<or> nxt = UINT64_MAX)"
proof -
  have nz: "nxt \<noteq> 0" using ok by (simp add: ids_ok_def)
  note step = id_issued_next [OF nz e]
  show ?thesis
    unfolding ids_ok_def
  proof (intro conjI allI ballI impI)
    show "(if nxt = UINT64_MAX then nxt else nxt + 1) \<noteq> 0" by (rule step(3))
    have "fl_record_id f \<noteq> fl_record_id g" if "g \<in> set fs" for g
      using that ok step(4) [of "fl_record_id g"] f unfolding ids_ok_def by metis
    then show "distinct (map fl_record_id (f # fs))" using ok unfolding ids_ok_def by auto
    show "i = j" if "holds ss i r \<and> holds ss j r' \<and> mr_record_id r = mr_record_id r'" for i r j r'
      using that ok unfolding ids_ok_def by blast
    show "mr_record_id r \<noteq> fl_record_id g" if "g \<in> set (f # fs)" "holds ss i r" for g i r
      using that ok step(4) [of "mr_record_id r"] f unfolding ids_ok_def set_ConsD by fastforce
    show "id_issued (if nxt = UINT64_MAX then nxt else nxt + 1) (e \<or> nxt = UINT64_MAX)
        (fl_record_id g)" if "g \<in> set (f # fs)" for g
      using that ok step(1) step(2) [of "fl_record_id g"] f unfolding ids_ok_def by auto
    show "id_issued (if nxt = UINT64_MAX then nxt else nxt + 1) (e \<or> nxt = UINT64_MAX)
        (mr_record_id r)" if "holds ss i r" for i r
      using that ok step(2) [of "mr_record_id r"] unfolding ids_ok_def by blast
  qed
qed

lemma reserve_room:
  assumes inv: "inbox_inv m fs"
    and a: "im_reserved_records m < mc_max_records (im_config m) - im_live_records m - im_history_records m"
    and b: "n \<le> mc_max_total_bytes (im_config m) - im_retained_bytes m - im_reserved_bytes m"
  shows "unat (im_live_records m) + unat (im_history_records m) + unat (im_reserved_records m)
      < unat (mc_max_records (im_config m))"
    and "unat (im_retained_bytes m) + unat (im_reserved_bytes m) + unat n
      \<le> unat (mc_max_total_bytes (im_config m))"
proof -
  have bnd: "bounds_ok m" using inv by (simp add: inbox_inv_def)
  have 1: "unat (mc_max_records (im_config m) - im_live_records m) =
      unat (mc_max_records (im_config m)) - unat (im_live_records m)"
    using bnd by (intro unat_sub_le) (simp add: bounds_ok_def)
  have 2: "unat (mc_max_records (im_config m) - im_live_records m - im_history_records m) =
      unat (mc_max_records (im_config m)) - unat (im_live_records m) - unat (im_history_records m)"
    using bnd 1 by (subst unat_sub_le) (auto simp: bounds_ok_def)
  have 3: "unat (mc_max_total_bytes (im_config m) - im_retained_bytes m) =
      unat (mc_max_total_bytes (im_config m)) - unat (im_retained_bytes m)"
    using bnd by (intro unat_sub_le) (simp add: bounds_ok_def)
  have 4: "unat (mc_max_total_bytes (im_config m) - im_retained_bytes m - im_reserved_bytes m) =
      unat (mc_max_total_bytes (im_config m)) - unat (im_retained_bytes m) - unat (im_reserved_bytes m)"
    using bnd 3 by (subst unat_sub_le) (auto simp: bounds_ok_def)
  show "unat (im_live_records m) + unat (im_history_records m) + unat (im_reserved_records m)
      < unat (mc_max_records (im_config m))"
    using a 2 by (simp add: word_less_nat_alt)
  show "unat (im_retained_bytes m) + unat (im_reserved_bytes m) + unat n
      \<le> unat (mc_max_total_bytes (im_config m))"
    using b 4 bnd unfolding word_le_nat_alt bounds_ok_def by linarith
qed

lemma ids_issued_next:
  "nxt \<noteq> 0 \<Longrightarrow>
   ids_issued (if nxt = UINT64_MAX then nxt else nxt + 1) (nxt = UINT64_MAX) = Suc (ids_issued nxt False)"
  using unat_inc [of nxt] unat_UINT64_MAX unat_gt_0 [of nxt] by (auto simp: ids_issued_def)

lemma ids_issued_bound: "ids_issued nxt e < 2 ^ 64"
  using unat_bound64 [of nxt] by (auto simp: ids_issued_def)

lemma reserve_inv:
  assumes inv: "inbox_inv m fs" and res: "admit_reserve m src = (m', AdmitReserved i n rid)"
    and valid: "flow_inbox_record_valid (Some src) = SALTS_OK" and wf: "record_wf src"
  shows "inbox_inv m' (\<lparr>fl_source = src, fl_slot = i, fl_bytes = n, fl_record_id = rid\<rparr> # fs)"
proof -
  note r = admit_reserve_reserved [OF res]
  let ?f = "\<lparr>fl_source = src, fl_slot = i, fl_bytes = n, fl_record_id = rid\<rparr>"
  note room = reserve_room [OF inv r(6) r(7)] and wb = inv_word_bounds [OF inv]
  have inc: "unat (im_reserved_records m + 1) = Suc (unat (im_reserved_records m))"
    using wb(1) by (intro unat_inc_small) simp
  have total: "unat (mc_max_total_bytes (im_config m)) < 2 ^ 63"
    using inv config_bounds(2) by (simp add: inbox_inv_def)
  have add: "unat (im_reserved_bytes m + n) = unat (im_reserved_bytes m) + unat n"
    using room(2) total by (intro unat_add_bounded) simp
  have "slots_ok (im_records m') (?f # fs) (unat (mc_max_records (im_config m)))"
    using inv slots_ok_reserve(1) [of _ fs _ i ?f] r(8)
    by (simp add: r(10) reserved_state_def inbox_inv_def)
  moreover have "ids_ok (im_records m') (?f # fs) (im_next_record_id m') (im_record_id_exhausted m')"
    using inv ids_ok_reserve [of _ fs _ False ?f] r(5,9) 
    by (simp add: r(10) reserved_state_def inbox_inv_def ids_ok_mark)
  moreover have "counters_ok m' (?f # fs)" "bounds_ok m'" "ledger_ok m'"
    using inv room ids_issued_next [of "im_next_record_id m"] r(5)
    by (auto simp: ids_ok_def r(10) reserved_state_def inbox_inv_def counters_ok_def bounds_ok_def ledger_ok_def
        flight_bytes_def inc add count_mark bytes_mark live_slot_def in_phase_def)
  ultimately show ?thesis
    using inv valid wf r(1,4)
    by (simp add: r(10) reserved_state_def inbox_inv_def ids_ok_mark flight_ok_def)
qed


lemma distinct_map_remove1: "distinct (map g xs) \<Longrightarrow> distinct (map g (remove1 x xs))"
proof (induction xs)
  case (Cons a xs)
  have "set (remove1 x xs) \<subseteq> set xs" by (rule set_remove1_subset)
  with Cons show ?case by auto
qed simp

lemma flight_remove:
  assumes "f \<in> set fs" and "distinct (map fl_slot fs)"
  shows "fl_slot ` set (remove1 f fs) = fl_slot ` set fs - {fl_slot f}"
    and "distinct (map fl_slot (remove1 f fs))"
    and "Suc (length (remove1 f fs)) = length fs"
    and "flight_bytes (remove1 f fs) + unat (fl_bytes f) = flight_bytes fs"
proof -
  have d: "distinct fs" using assms(2) by (simp add: distinct_map)
  then have set: "set (remove1 f fs) = set fs - {f}" by simp
  have inj: "inj_on fl_slot (set fs)" using assms(2) by (simp add: distinct_map)
  show "fl_slot ` set (remove1 f fs) = fl_slot ` set fs - {fl_slot f}"
    unfolding set using inj assms(1) by (simp add: inj_on_image_set_diff)
  show "distinct (map fl_slot (remove1 f fs))" by (rule distinct_map_remove1) (rule assms(2))
  show "Suc (length (remove1 f fs)) = length fs"
    using assms(1) by (simp add: length_remove1) (metis length_pos_if_in_set Suc_pred)
  show "flight_bytes (remove1 f fs) + unat (fl_bytes f) = flight_bytes fs"
    using assms(1) by (induction fs) (auto simp: flight_bytes_def)
qed

lemma slots_ok_release:
  assumes ok: "slots_ok ss fs n" and f: "f \<in> set fs" and s: "\<not> sl_reserved s"
  shows "slots_ok (ss[fl_slot f := s]) (remove1 f fs) n"
proof -
  have "distinct (map fl_slot fs)" using ok by (simp add: slots_ok_def)
  note rm = flight_remove(1,2) [OF f this]
  have "fl_slot f < n" using ok f by (simp add: slots_ok_def)
  then show ?thesis
    using ok s by (auto simp: slots_ok_def rm nth_list_update dest: notin_set_remove1 split: if_splits)
qed

lemma ids_ok_release:
  assumes ok: "ids_ok ss fs nxt e"
  shows "ids_ok ss (remove1 f fs) nxt e"
proof -
  have "set (remove1 f fs) \<subseteq> set fs" by (rule set_remove1_subset)
  moreover have "distinct (map fl_record_id (remove1 f fs))"
    by (rule distinct_map_remove1) (use ok in \<open>simp add: ids_ok_def\<close>)
  ultimately show ?thesis using ok unfolding ids_ok_def by blast
qed


lemma ids_ok_publish:
  assumes ok: "ids_ok ss fs nxt e" and f: "f \<in> set fs" and r: "mr_record_id r = fl_record_id f"
    and s: "sl_record s = Some r"
  shows "ids_ok (ss[i := s]) (remove1 f fs) nxt e"
proof -
  have d: "distinct (map fl_record_id fs)" using ok by (simp add: ids_ok_def)
  have out: "fl_record_id g \<noteq> fl_record_id f" if "g \<in> set (remove1 f fs)" for g
  proof -
    have "distinct fs" using d by (simp add: distinct_map)
    then have "g \<in> set fs" "g \<noteq> f" using that by auto
    with d f show ?thesis by (auto simp: distinct_map dest: inj_onD)
  qed
  have sub: "g \<in> set fs" if "g \<in> set (remove1 f fs)" for g
    using that set_remove1_subset by (rule subsetD [rotated])
  have fresh: "mr_record_id x \<noteq> fl_record_id f" if "holds ss j x" for j x
    using ok f that unfolding ids_ok_def by blast
  show ?thesis
    unfolding ids_ok_def
  proof (intro conjI allI ballI impI)
    show "nxt \<noteq> 0" using ok by (simp add: ids_ok_def)
    show "distinct (map fl_record_id (remove1 f fs))" using d by (rule distinct_map_remove1)
    show "a = b" if "holds (ss[i := s]) a x \<and> holds (ss[i := s]) b y \<and>
        mr_record_id x = mr_record_id y" for a x b y
      using that ok fresh [of a x] fresh [of b y] r s unfolding ids_ok_def
      by (cases "a = i"; cases "b = i") (auto simp: holds_update)
    show "mr_record_id x \<noteq> fl_record_id g"
      if "g \<in> set (remove1 f fs)" "holds (ss[i := s]) j x" for g j x
      using that ok out [OF that(1)] sub [OF that(1)] r s unfolding ids_ok_def
      by (cases "j = i") (auto simp: holds_update)
    show "id_issued nxt e (fl_record_id g)" if "g \<in> set (remove1 f fs)" for g
      using ok sub [OF that] unfolding ids_ok_def by blast
    show "id_issued nxt e (mr_record_id x)" if "holds (ss[i := s]) j x" for j x
      using that ok f r s unfolding ids_ok_def by (cases "j = i") (auto simp: holds_update)
  qed
qed

lemma identity_ok_publish:
  assumes ok: "identity_ok ss" and s: "sl_record s = Some r"
    and fresh: "\<And>j x. holds ss j x \<Longrightarrow> \<not> same_identity (mr_view x) (mr_view r)"
  shows "identity_ok (ss[i := s])"
proof -
  have sym: "same_identity a b \<Longrightarrow> same_identity b a" for a b
    by (auto simp: same_identity_def flow_inbox_view_equal_def)
  show ?thesis
    unfolding identity_ok_def
  proof (intro allI impI)
    fix a x b y
    assume "holds (ss[i := s]) a x \<and> holds (ss[i := s]) b y \<and> same_identity (mr_view x) (mr_view y)"
    with s fresh [of a x] fresh [of b y] sym [of "mr_view r"] ok show "a = b"
      unfolding identity_ok_def by (cases "a = i"; cases "b = i"; simp add: holds_update; blast)
  qed
qed

lemma tokens_ok_publish:
  assumes "tokens_ok ss nxt e" and "sl_record s = Some r" and "mr_phase r \<noteq> RECORD_CLAIMED"
  shows "tokens_ok (ss[i := s]) nxt e"
  by (rule tokens_ok_transfer [OF assms(1)])
    (use assms(2,3) in \<open>auto simp: holds_update split: if_splits\<close>)

lemma records_ok_publish:
  "records_ok ss l \<Longrightarrow> sl_record s = Some r \<Longrightarrow> record_ok l r \<Longrightarrow> records_ok (ss[i := s]) l"
  unfolding records_ok_def by (auto simp: holds_update split: if_splits)

text \<open>What releasing a reservation leaves of the counters.\<close>

lemma release_counters:
  assumes inv: "inbox_inv m fs" and f: "f \<in> set fs"
  shows "unat (im_reserved_records m - 1) = length (remove1 f fs)"
    and "unat (im_reserved_bytes m - fl_bytes f) = flight_bytes (remove1 f fs)"
    and "Suc (length (remove1 f fs)) = length fs"
    and "flight_bytes (remove1 f fs) + unat (fl_bytes f) = flight_bytes fs"
proof -
  have d: "distinct (map fl_slot fs)" using inv by (simp add: inbox_inv_def slots_ok_def)
  note rm = flight_remove [OF f d]
  have c: "unat (im_reserved_records m) = length fs" "unat (im_reserved_bytes m) = flight_bytes fs"
    using inv by (simp_all add: inbox_inv_def counters_ok_def)
  show "unat (im_reserved_records m - 1) = length (remove1 f fs)"
    using c(1) rm(3) by (subst unat_dec) arith+
  show "unat (im_reserved_bytes m - fl_bytes f) = flight_bytes (remove1 f fs)"
    using c rm(4) by (subst unat_sub_le) simp_all
qed (use flight_remove [OF f] inv in \<open>simp_all add: inbox_inv_def slots_ok_def\<close>)

lemma release_inv:
  assumes inv: "inbox_inv m fs" and f: "f \<in> set fs"
  shows "inbox_inv (flow_inbox_memory_release_reservation m (fl_slot f) (fl_bytes f)) (remove1 f fs)"
proof -
  let ?m = "flow_inbox_memory_release_reservation m (fl_slot f) (fl_bytes f)"
  note rc = release_counters [OF inv f]
  have "counters_ok ?m (remove1 f fs)"
    using inv rc(1-3) by (auto simp: flow_inbox_memory_release_reservation_def inbox_inv_def counters_ok_def
        count_mark bytes_mark live_slot_def in_phase_def)
  moreover have "bounds_ok ?m"
    using inv rc by (auto simp: flow_inbox_memory_release_reservation_def inbox_inv_def counters_ok_def
        bounds_ok_def)
  moreover have "ledger_ok ?m"
    using inv by (auto simp: flow_inbox_memory_release_reservation_def inbox_inv_def ledger_ok_def
        count_mark in_phase_def)
  moreover have "\<forall>g \<in> set (remove1 f fs). flight_ok (mc_max_record_bytes (im_config m)) g"
    using inv set_remove1_subset [of f fs] by (auto simp: inbox_inv_def)
  ultimately show ?thesis
    using inv f by (simp add: flow_inbox_memory_release_reservation_def inbox_inv_def ids_ok_mark
        ids_ok_release slots_ok_release)
qed


lemma publish_counters:
  assumes inv: "inbox_inv m fs" and f: "f \<in> set fs" and i: "fl_slot f < length (im_records m)"
    "sl_record (im_records m ! fl_slot f) = None"
    and r: "mr_phase r = RECORD_PENDING" "mr_retained_bytes r = fl_bytes f"
    and m': "im_config m' = im_config m" 
      "im_records m' = (im_records m)[fl_slot f := (im_records m ! fl_slot f)\<lparr>sl_record := Some r,
         sl_reserved := False\<rparr>]"
      "im_reserved_records m' = im_reserved_records m - 1"
      "im_reserved_bytes m' = im_reserved_bytes m - fl_bytes f"
      "im_retained_bytes m' = im_retained_bytes m + fl_bytes f"
      "im_live_records m' = im_live_records m + 1" "im_admitted m' = im_admitted m + 1"
      "im_history_records m' = im_history_records m" "im_in_flight_claims m' = im_in_flight_claims m"
      "im_completed m' = im_completed m" "im_failed m' = im_failed m" "im_retried m' = im_retried m"
      "im_discarded m' = im_discarded m" "im_next_record_id m' = im_next_record_id m"
      "im_record_id_exhausted m' = im_record_id_exhausted m"
  shows "counters_ok m' (remove1 f fs)" and "bounds_ok m'" and "ledger_ok m'"
proof -
  note rc = release_counters [OF inv f]
  have nums: "counters_ok m fs" "bounds_ok m" "ledger_ok m" using inv by (auto simp: inbox_inv_def)
  let ?ss = "put (im_records m) (fl_slot f) r"
  have marked: "im_records m' = ?ss[fl_slot f := (?ss ! fl_slot f)\<lparr>sl_reserved := False\<rparr>]"
    using i(1) by (simp add: m')
  have cnt: "count live_slot (im_records m') = Suc (count live_slot (im_records m))"
    "count (in_phase RECORD_TOMBSTONE) (im_records m') = count (in_phase RECORD_TOMBSTONE) (im_records m)"
    "count (in_phase RECORD_CLAIMED) (im_records m') = count (in_phase RECORD_CLAIMED) (im_records m)"
    "count (in_phase RECORD_FAILED) (im_records m') = count (in_phase RECORD_FAILED) (im_records m)"
    "sum_list (map slot_bytes (im_records m')) =
      sum_list (map slot_bytes (im_records m)) + unat (fl_bytes f)"
    unfolding marked live_slot_def in_phase_def count_mark bytes_mark
    by (simp_all add: count_put_empty [OF i] bytes_put_empty [OF i] r)
  have live: "unat (im_live_records m + 1) = Suc (unat (im_live_records m))"
    using inv_word_bounds(1) [OF inv] by (intro unat_inc_small) simp
  have bytes: "unat (im_retained_bytes m + fl_bytes f) = unat (im_retained_bytes m) + unat (fl_bytes f)"
    using inv_word_bounds(2) [OF inv] nums(1) rc(4) by (intro unat_add_bounded) (simp add: counters_ok_def)
  have adm: "unat (im_admitted m + 1) = Suc (unat (im_admitted m))"
    using nums(1) rc(3) ids_issued_bound [of "im_next_record_id m" "im_record_id_exhausted m"]
    by (intro unat_inc_bounded [of _ "2 ^ 64 - 1"]) (auto simp: counters_ok_def)
  show "counters_ok m' (remove1 f fs)"
    using nums(1) rc cnt unfolding counters_ok_def by (auto simp: m'(1,3-) live bytes adm)
  show "bounds_ok m'"
    using nums(1,2) rc unfolding counters_ok_def bounds_ok_def by (auto simp: m'(1,3-) live bytes)
  show "ledger_ok m'"
    using nums(3) cnt unfolding ledger_ok_def by (auto simp: m'(1,3-) live adm)
qed

lemma publish_inv:
  assumes inv: "inbox_inv m fs" and f: "f \<in> set fs"
    and copy: "flow_inbox_memory_record_copy True (fl_source f) (fl_bytes f) = Some rec"
    and fresh: "flow_inbox_memory_find_admission m (fl_source f) = None"
  shows "inbox_inv (flow_inbox_memory_release_reservation
      ((put_record (fl_slot f) (rec\<lparr>mr_record_id := fl_record_id f\<rparr>) m)
        \<lparr>im_retained_bytes := im_retained_bytes m + fl_bytes f,
         im_live_records := im_live_records m + 1, im_admitted := im_admitted m + 1\<rparr>)
      (fl_slot f) (fl_bytes f)) (remove1 f fs)"
    (is "inbox_inv ?m _")
proof -
  let ?i = "fl_slot f" and ?r = "rec\<lparr>mr_record_id := fl_record_id f\<rparr>"
  let ?s = "(im_records m ! ?i)\<lparr>sl_record := Some ?r, sl_reserved := False\<rparr>"
  let ?ss = "(im_records m)[?i := ?s]"
  have fl: "flight_ok (mc_max_record_bytes (im_config m)) f" using inv f by (simp add: inbox_inv_def)
  note fo = fl [unfolded flight_ok_def]
  have i: "?i < length (im_records m)" "sl_record (im_records m ! ?i) = None"
    using inv f by (auto simp: inbox_inv_def slots_ok_def)
  have view: "mr_view ?r = copied_view (fl_source f)"
    using record_copy_view [OF copy] fo by simp
  have rec: "record_ok (mc_max_record_bytes (im_config m)) ?r"
    using record_copy_fields [OF copy] record_copy_storage [OF copy] fo copied_view_valid view
    by (simp add: record_ok_def)
  have new: "im_records ?m = ?ss"
    using i by (simp add: flow_inbox_memory_release_reservation_def put_record_def)
  have "\<not> same_identity (mr_view x) (mr_view ?r)" if "holds (im_records m) j x" for j x
    using find_admission_holds(2) [OF fresh that] unfolding view
    by (simp add: same_identity_def same_admission_def copied_view_def)
  then have "identity_ok ?ss"
    using inv by (intro identity_ok_publish [where r = ?r]) (simp_all add: inbox_inv_def)
  moreover have "ids_ok ?ss (remove1 f fs) (im_next_record_id m) (im_record_id_exhausted m)"
    using inv f by (intro ids_ok_publish [where r = ?r]) (simp_all add: inbox_inv_def)
  moreover have "tokens_ok ?ss (im_next_claim_token m) (im_claim_token_exhausted m)"
    using inv record_copy_fields [OF copy]
    by (intro tokens_ok_publish [where r = ?r]) (simp_all add: inbox_inv_def)
  moreover have "records_ok ?ss (mc_max_record_bytes (im_config m))"
    using inv rec by (intro records_ok_publish [where r = ?r]) (simp_all add: inbox_inv_def)
  moreover have "slots_ok ?ss (remove1 f fs) (unat (mc_max_records (im_config m)))"
    using inv f by (intro slots_ok_release) (simp_all add: inbox_inv_def)
  moreover have "counters_ok ?m (remove1 f fs)" "bounds_ok ?m" "ledger_ok ?m"
    by (rule publish_counters [OF inv f i, where r = ?r];
        use i record_copy_fields [OF copy]
        in \<open>simp add: flow_inbox_memory_release_reservation_def put_record_def\<close>)+
  moreover have "\<forall>g \<in> set (remove1 f fs). flight_ok (mc_max_record_bytes (im_config m)) g"
    using inv set_remove1_subset [of f fs] by (auto simp: inbox_inv_def)
  ultimately show ?thesis
    using inv by (simp add: inbox_inv_def new)
       (simp add: flow_inbox_memory_release_reservation_def put_record_def)
qed


lemma commit_inv:
  assumes inv: "inbox_inv m fs" and f: "f \<in> set fs"
    and copy: "flow_inbox_memory_record_copy True (fl_source f) (fl_bytes f) = Some rec"
  shows "inbox_inv (fst (admit_commit m (fl_source f) (fl_slot f) (fl_bytes f)
      (rec\<lparr>mr_record_id := fl_record_id f\<rparr>))) (remove1 f fs)"
proof (cases "flow_inbox_memory_find_admission m (fl_source f)")
  case None
  have "fl_slot f < length (im_records m)" "sl_reserved (im_records m ! fl_slot f)"
    "sl_record (im_records m ! fl_slot f) = None"
    using inv f by (auto simp: inbox_inv_def slots_ok_def)
  with publish_inv [OF inv f copy None] show ?thesis by (simp add: admit_commit_def None)
next
  case (Some r)
  with release_inv [OF inv f] show ?thesis by (simp add: admit_commit_def)
qed

section \<open>Runs\<close>

text \<open>
  One step is one critical section of some thread.  An admission is the step \<open>reserve\<close>, which
  adds a flight, followed later by \<open>commit\<close> or, when the copy cannot be allocated, \<open>abort\<close>;
  the steps of other threads may come between.  Operations that change nothing (the scans, the
  snapshot) are not steps.
\<close>

type_synonym inbox_state = "flow_inbox_memory \<times> flight list"

inductive inbox_step :: "inbox_state \<Rightarrow> inbox_state \<Rightarrow> bool" where
  reserve: "flow_inbox_record_valid (Some src) = SALTS_OK \<Longrightarrow> record_wf src \<Longrightarrow>
    admit_reserve m src = (m', AdmitReserved i n rid) \<Longrightarrow>
    inbox_step (m, fs)
      (m', \<lparr>fl_source = src, fl_slot = i, fl_bytes = n, fl_record_id = rid\<rparr> # fs)"
| refuse: "admit_reserve m src = (m', AdmitDone rc rid) \<Longrightarrow> inbox_step (m, fs) (m', fs)"
| commit: "f \<in> set fs \<Longrightarrow>
    flow_inbox_memory_record_copy True (fl_source f) (fl_bytes f) = Some rec \<Longrightarrow>
    inbox_step (m, fs)
      (fst (admit_commit m (fl_source f) (fl_slot f) (fl_bytes f)
         (rec\<lparr>mr_record_id := fl_record_id f\<rparr>)), remove1 f fs)"
| abort: "f \<in> set fs \<Longrightarrow>
    inbox_step (m, fs) (admit_abort m (fl_slot f) (fl_bytes f), remove1 f fs)"
| claim: "inbox_step (m, fs) (fst (flow_inbox_memory_claim_ex m q c), fs)"
| complete: "inbox_step (m, fs) (fst (flow_inbox_memory_complete m rid tok), fs)"
| fail: "st \<noteq> SALTS_OK \<Longrightarrow> inbox_step (m, fs) (fst (flow_inbox_memory_fail m rid tok st), fs)"
| retry: "inbox_step (m, fs) (fst (flow_inbox_memory_retry m rid), fs)"
| discard: "inbox_step (m, fs) (fst (flow_inbox_memory_discard m rid), fs)"
| forget: "inbox_step (m, fs) (fst (flow_inbox_memory_forget m rid), fs)"
| close: "inbox_step (m, fs) (fst (flow_inbox_memory_close m), fs)"

inductive_cases inbox_stepE: "inbox_step s s'"

lemma inbox_step_inv:
  assumes "inbox_step (m, fs) (m', fs')" and inv: "inbox_inv m fs"
  shows "inbox_inv m' fs'"
  using assms(1)
proof cases
  case (refuse src rc rid)
  have "im_next_record_id m \<noteq> 0" using inv by (simp add: inbox_inv_def ids_ok_def)
  with refuse admit_reserve_done inv show ?thesis by blast
qed (use inv in \<open>simp_all add: reserve_inv commit_inv release_inv admit_abort_def
  flow_inbox_memory_claim_ex_def claim_select_inv complete_inv fail_inv retry_inv discard_inv
  forget_inv close_inv\<close>)

definition inbox_reachable :: "inbox_memory_config \<Rightarrow> flow_inbox_memory \<Rightarrow> flight list \<Rightarrow> bool" where
  "inbox_reachable c m fs \<longleftrightarrow> inbox_step\<^sup>*\<^sup>* (empty_inbox_memory c, []) (m, fs)"

lemma inbox_steps_inv:
  assumes "inbox_step\<^sup>*\<^sup>* s s'" and "case s of (m, fs) \<Rightarrow> inbox_inv m fs"
  shows "case s' of (m, fs) \<Rightarrow> inbox_inv m fs"
  using assms by (induction rule: rtranclp_induct) (auto dest: inbox_step_inv)

lemma reachable_inv:
  "flow_inbox_memory_config_valid (Some c) \<Longrightarrow> inbox_reachable c m fs \<Longrightarrow> inbox_inv m fs"
  using inbox_steps_inv [of "(empty_inbox_memory c, [])" "(m, fs)"] empty_inv
  by (simp add: inbox_reachable_def)

end
