(* ===== verification/Flow_Inbox_Host.thy ===== *)
theory Flow_Inbox_Host
  imports Flow_Inbox_Inv
begin

text \<open>
  The host side of the inbox: the operation table, the handle and the entry points
  \<open>turbo_flow_inbox_*\<close> of \<open>turbo_flow/src/flow_inbox.c\<close>, which check their arguments, call
  the provider through the table and check what it returned.

  The locale \<open>inbox_provider\<close> states what the host relies on; its lemmas say what a caller of
  the entry points observes.  It is interpreted on the table of the memory provider with the
  invariant of \<open>Flow_Inbox_Inv\<close>.

  A provider context is the provider's state, passed in and returned; \<open>NULL\<close> callbacks and
  pointers are \<open>None\<close>.
\<close>

section \<open>Handles and tables\<close>

text \<open>An entry array with its capacity.\<close>

datatype 'e c_array = NullArray size_t | Array "'e list"

fun array_capacity_nonzero :: "'e c_array \<Rightarrow> bool" where
  "array_capacity_nonzero (NullArray n) = (n \<noteq> 0)"
| "array_capacity_nonzero (Array es) = (es \<noteq> [])"

fun array_elems :: "'e c_array \<Rightarrow> 'e list" where
  "array_elems (NullArray n) = []"
| "array_elems (Array es) = es"

record 'c inbox_ops =
  op_size :: abi_size
  op_version :: u32
  op_admit :: "('c \<Rightarrow> inbox_record \<Rightarrow> inbox_receipt \<Rightarrow> 'c \<times> inbox_receipt \<times> status) option"
  op_claim :: "('c \<Rightarrow> inbox_claim \<Rightarrow> 'c \<times> inbox_claim \<times> status) option"
  op_claim_ex :: "('c \<Rightarrow> claim_request option \<Rightarrow> inbox_claim \<Rightarrow> 'c \<times> inbox_claim \<times> status) option"
  op_complete :: "('c \<Rightarrow> u64 \<Rightarrow> u64 \<Rightarrow> 'c \<times> status) option"
  op_fail :: "('c \<Rightarrow> u64 \<Rightarrow> u64 \<Rightarrow> status \<Rightarrow> 'c \<times> status) option"
  op_retry :: "('c \<Rightarrow> u64 \<Rightarrow> 'c \<times> status) option"
  op_discard :: "('c \<Rightarrow> u64 \<Rightarrow> 'c \<times> status) option"
  op_forget :: "('c \<Rightarrow> u64 \<Rightarrow> 'c \<times> status) option"
  op_scan_failed :: "('c \<Rightarrow> u64 \<Rightarrow> failed_entry list \<Rightarrow> failed_entry list \<times> nat \<times> status) option"
  op_scan_history :: "('c \<Rightarrow> u64 \<Rightarrow> history_entry list \<Rightarrow> history_entry list \<times> nat \<times> status) option"
  op_close :: "('c \<Rightarrow> 'c \<times> status) option"
  op_snapshot :: "('c \<Rightarrow> inbox_snapshot \<Rightarrow> inbox_snapshot \<times> status) option"
  op_destroy :: "('c \<Rightarrow> 'c option \<times> status) option"

record 'c inbox_handle =
  ih_size :: abi_size
  ih_version :: u32
  ih_ops :: "'c inbox_ops option"
  ih_ctx :: "'c option"

definition INBOX_INIT :: "'c inbox_handle" where
  "INBOX_INIT = \<lparr>ih_size = ExactSize, ih_version = INBOX_API_VERSION, ih_ops = None, ih_ctx = None\<rparr>"

definition flow_inbox_handle_valid :: "'c inbox_handle option \<Rightarrow> bool" where
  "flow_inbox_handle_valid p =
     (case p of
        None \<Rightarrow> False
      | Some h \<Rightarrow>
          if ih_size h \<noteq> ExactSize \<or> ih_version h \<noteq> INBOX_API_VERSION \<or> ih_ops h = None \<or>
             ih_ctx h = None
          then False
          else
            (let ops = the (ih_ops h) in
               op_size ops = ExactSize \<and> op_version ops = INBOX_API_VERSION \<and>
               op_admit ops \<noteq> None \<and> op_claim ops \<noteq> None \<and> op_claim_ex ops \<noteq> None \<and>
               op_complete ops \<noteq> None \<and> op_fail ops \<noteq> None \<and> op_retry ops \<noteq> None \<and>
               op_discard ops \<noteq> None \<and> op_forget ops \<noteq> None \<and> op_scan_failed ops \<noteq> None \<and>
               op_scan_history ops \<noteq> None \<and> op_close ops \<noteq> None \<and> op_snapshot ops \<noteq> None \<and>
               op_destroy ops \<noteq> None))"

abbreviation handle_ops :: "'c inbox_handle option \<Rightarrow> 'c inbox_ops" where
  "handle_ops h \<equiv> the (ih_ops (the h))"

abbreviation handle_ctx :: "'c inbox_handle option \<Rightarrow> 'c" where
  "handle_ctx h \<equiv> the (ih_ctx (the h))"

definition with_ctx :: "'c inbox_handle option \<Rightarrow> 'c \<Rightarrow> 'c inbox_handle option" where
  "with_ctx h c = map_option (\<lambda>x. x\<lparr>ih_ctx := Some c\<rparr>) h"

definition flow_inbox_memory_ops :: "bool \<Rightarrow> flow_inbox_memory inbox_ops" where
  "flow_inbox_memory_ops alloc_ok =
     \<lparr>op_size = ExactSize, op_version = INBOX_API_VERSION,
      op_admit = Some (flow_inbox_memory_admit alloc_ok),
      op_claim = Some flow_inbox_memory_claim,
      op_claim_ex = Some flow_inbox_memory_claim_ex,
      op_complete = Some flow_inbox_memory_complete,
      op_fail = Some flow_inbox_memory_fail,
      op_retry = Some flow_inbox_memory_retry,
      op_discard = Some flow_inbox_memory_discard,
      op_forget = Some flow_inbox_memory_forget,
      op_scan_failed = Some flow_inbox_memory_scan_failed,
      op_scan_history = Some flow_inbox_memory_scan_history,
      op_close = Some flow_inbox_memory_close,
      op_snapshot = Some flow_inbox_memory_snapshot,
      op_destroy = Some flow_inbox_memory_destroy\<rparr>"

text \<open>The three allocations are those of the owner, its mutex and the slot vector.\<close>

definition turbo_flow_inbox_memory_create ::
    "bool \<Rightarrow> bool \<Rightarrow> bool \<Rightarrow> bool \<Rightarrow> inbox_memory_config option \<Rightarrow>
     flow_inbox_memory inbox_handle option \<Rightarrow> flow_inbox_memory inbox_handle option \<times> status" where
  "turbo_flow_inbox_memory_create alloc_ok owner_ok mutex_ok vec_ok config out =
     (case out of
        None \<Rightarrow> (out, SALTS_EINVAL)
      | Some h \<Rightarrow>
          if ih_size h \<noteq> ExactSize \<or> ih_version h \<noteq> INBOX_API_VERSION \<or> ih_ops h \<noteq> None \<or>
             ih_ctx h \<noteq> None \<or> \<not> flow_inbox_memory_config_valid config
          then (out, SALTS_EINVAL)
          else if \<not> owner_ok then (out, SALTS_ENOMEM)
          else if \<not> mutex_ok then (out, SALTS_ENOMEM)
          else if \<not> vec_ok then (out, SALTS_ENOMEM)
          else (Some (h\<lparr>ih_ops := Some (flow_inbox_memory_ops alloc_ok),
                        ih_ctx := Some (empty_inbox_memory (the config))\<rparr>), SALTS_OK))"

section \<open>Entry points\<close>

definition turbo_flow_inbox_admit ::
    "'c inbox_handle option \<Rightarrow> inbox_record option \<Rightarrow> inbox_receipt option \<Rightarrow>
     'c inbox_handle option \<times> inbox_receipt option \<times> status" where
  "turbo_flow_inbox_admit h rec receipt =
     (case receipt of
        None \<Rightarrow> (h, receipt, SALTS_EINVAL)
      | Some rp \<Rightarrow>
          if rp_size rp \<noteq> ExactSize \<or> rp_version rp \<noteq> INBOX_API_VERSION
          then (h, receipt, SALTS_EINVAL)
          else if \<not> flow_inbox_handle_valid h then (h, Some INBOX_RECEIPT_INIT, SALTS_EINVAL)
          else if flow_inbox_record_valid rec \<noteq> SALTS_OK
          then (h, Some INBOX_RECEIPT_INIT, flow_inbox_record_valid rec)
          else
            (case the (op_admit (handle_ops h)) (handle_ctx h) (the rec) INBOX_RECEIPT_INIT of
               (c, rp', rc) \<Rightarrow>
                 if rc \<noteq> SALTS_OK then (with_ctx h c, Some INBOX_RECEIPT_INIT, rc)
                 else if rp_size rp' \<noteq> ExactSize \<or> rp_version rp' \<noteq> INBOX_API_VERSION \<or>
                         rp_record_id rp' = 0
                 then (with_ctx h c, Some INBOX_RECEIPT_INIT, SALTS_EPROTO)
                 else (with_ctx h c, Some rp', SALTS_OK)))"

text \<open>The checks on a returned claim, shared by both claim entry points.\<close>

definition claim_result ::
    "'c inbox_handle option \<Rightarrow> 'c \<times> inbox_claim \<times> status \<Rightarrow>
     'c inbox_handle option \<times> inbox_claim option \<times> status" where
  "claim_result h res =
     (case res of (c, cl, rc) \<Rightarrow>
        if rc \<noteq> SALTS_OK then (with_ctx h c, Some INBOX_CLAIM_INIT, rc)
        else if cl_size cl \<noteq> ExactSize \<or> cl_version cl \<noteq> INBOX_API_VERSION \<or>
                cl_record_id cl = 0 \<or> cl_claim_token cl = 0 \<or>
                flow_inbox_record_valid (Some (cl_record cl)) \<noteq> SALTS_OK
        then (with_ctx h c, Some INBOX_CLAIM_INIT, SALTS_EPROTO)
        else (with_ctx h c, Some cl, SALTS_OK))"

definition turbo_flow_inbox_claim ::
    "'c inbox_handle option \<Rightarrow> inbox_claim option \<Rightarrow>
     'c inbox_handle option \<times> inbox_claim option \<times> status" where
  "turbo_flow_inbox_claim h claim =
     (case claim of
        None \<Rightarrow> (h, claim, SALTS_EINVAL)
      | Some cl \<Rightarrow>
          if cl_size cl \<noteq> ExactSize \<or> cl_version cl \<noteq> INBOX_API_VERSION
          then (h, claim, SALTS_EINVAL)
          else if cl_record_id cl \<noteq> 0 \<or> cl_claim_token cl \<noteq> 0 then (h, claim, SALTS_EBUSY)
          else if \<not> flow_inbox_handle_valid h then (h, Some INBOX_CLAIM_INIT, SALTS_EINVAL)
          else claim_result h (the (op_claim (handle_ops h)) (handle_ctx h) INBOX_CLAIM_INIT))"

definition turbo_flow_inbox_claim_ex ::
    "'c inbox_handle option \<Rightarrow> claim_request option \<Rightarrow> inbox_claim option \<Rightarrow>
     'c inbox_handle option \<times> inbox_claim option \<times> status" where
  "turbo_flow_inbox_claim_ex h request claim =
     (case claim of
        None \<Rightarrow> (h, claim, SALTS_EINVAL)
      | Some cl \<Rightarrow>
          if cl_size cl \<noteq> ExactSize \<or> cl_version cl \<noteq> INBOX_API_VERSION \<or>
             \<not> flow_inbox_claim_request_valid request
          then (h, claim, SALTS_EINVAL)
          else if cl_record_id cl \<noteq> 0 \<or> cl_claim_token cl \<noteq> 0 then (h, claim, SALTS_EBUSY)
          else if \<not> flow_inbox_handle_valid h then (h, Some INBOX_CLAIM_INIT, SALTS_EINVAL)
          else claim_result h
                 (the (op_claim_ex (handle_ops h)) (handle_ctx h) request INBOX_CLAIM_INIT))"

definition flow_inbox_claim_valid :: "inbox_claim option \<Rightarrow> bool" where
  "flow_inbox_claim_valid p =
     (case p of
        None \<Rightarrow> False
      | Some cl \<Rightarrow> cl_size cl = ExactSize \<and> cl_version cl = INBOX_API_VERSION \<and>
          cl_record_id cl \<noteq> 0 \<and> cl_claim_token cl \<noteq> 0)"

definition flow_inbox_snapshot_valid :: "inbox_snapshot \<Rightarrow> bool" where
  "flow_inbox_snapshot_valid s =
     (if sn_generation s = 0 \<or> (sn_accepting s \<noteq> 0 \<and> sn_accepting s \<noteq> 1) \<or>
         sn_pending_records s > sn_records s then False
      else
        (let unclassified = sn_records s - sn_pending_records s in
           if sn_failed_records s > unclassified then False
           else if sn_in_flight_claims s \<noteq> unclassified - sn_failed_records s then False
           else if sn_records s > sn_admitted s \<or>
                   sn_history_records s > sn_admitted s - sn_records s then False
           else if sn_completed s > sn_admitted s \<or>
                   sn_discarded s > sn_admitted s - sn_completed s then False
           else if sn_history_records s > sn_completed s + sn_discarded s \<or>
                   sn_failed_records s > sn_failed s \<or> sn_retried s > sn_failed s \<or>
                   sn_discarded s > sn_failed s then False
           else True))"

text \<open>\<open>SALTS_OK\<close> and \<open>SALTS_ECANCELED\<close> invalidate the caller's claim.\<close>

definition settled_claim :: "inbox_claim option \<Rightarrow> status \<Rightarrow> inbox_claim option" where
  "settled_claim claim rc =
     (if rc = SALTS_OK \<or> rc = SALTS_ECANCELED then Some INBOX_CLAIM_INIT else claim)"

definition turbo_flow_inbox_complete ::
    "'c inbox_handle option \<Rightarrow> inbox_claim option \<Rightarrow>
     'c inbox_handle option \<times> inbox_claim option \<times> status" where
  "turbo_flow_inbox_complete h claim =
     (if \<not> flow_inbox_handle_valid h \<or> \<not> flow_inbox_claim_valid claim then (h, claim, SALTS_EINVAL)
      else
        (case the (op_complete (handle_ops h)) (handle_ctx h) (cl_record_id (the claim))
               (cl_claim_token (the claim)) of
           (c, rc) \<Rightarrow> (with_ctx h c, settled_claim claim rc, rc)))"

definition turbo_flow_inbox_fail ::
    "'c inbox_handle option \<Rightarrow> inbox_claim option \<Rightarrow> status \<Rightarrow>
     'c inbox_handle option \<times> inbox_claim option \<times> status" where
  "turbo_flow_inbox_fail h claim st =
     (if \<not> flow_inbox_handle_valid h \<or> \<not> flow_inbox_claim_valid claim \<or> st = SALTS_OK
      then (h, claim, SALTS_EINVAL)
      else
        (case the (op_fail (handle_ops h)) (handle_ctx h) (cl_record_id (the claim))
               (cl_claim_token (the claim)) st of
           (c, rc) \<Rightarrow> (with_ctx h c, settled_claim claim rc, rc)))"

definition turbo_flow_inbox_retry ::
    "'c inbox_handle option \<Rightarrow> u64 \<Rightarrow> 'c inbox_handle option \<times> status" where
  "turbo_flow_inbox_retry h rid =
     (if \<not> flow_inbox_handle_valid h \<or> rid = 0 then (h, SALTS_EINVAL)
      else (case the (op_retry (handle_ops h)) (handle_ctx h) rid of (c, rc) \<Rightarrow> (with_ctx h c, rc)))"

definition turbo_flow_inbox_discard ::
    "'c inbox_handle option \<Rightarrow> u64 \<Rightarrow> 'c inbox_handle option \<times> status" where
  "turbo_flow_inbox_discard h rid =
     (if \<not> flow_inbox_handle_valid h \<or> rid = 0 then (h, SALTS_EINVAL)
      else (case the (op_discard (handle_ops h)) (handle_ctx h) rid of (c, rc) \<Rightarrow> (with_ctx h c, rc)))"

definition turbo_flow_inbox_forget ::
    "'c inbox_handle option \<Rightarrow> u64 \<Rightarrow> 'c inbox_handle option \<times> status" where
  "turbo_flow_inbox_forget h rid =
     (if \<not> flow_inbox_handle_valid h \<or> rid = 0 then (h, SALTS_EINVAL)
      else (case the (op_forget (handle_ops h)) (handle_ctx h) rid of (c, rc) \<Rightarrow> (with_ctx h c, rc)))"

text \<open>The loop that checks and resets the caller's entries stops at the first bad one.\<close>

fun reset_failed_entries :: "failed_entry list \<Rightarrow> failed_entry list \<times> bool" where
  "reset_failed_entries [] = ([], True)"
| "reset_failed_entries (e # es) =
     (if fe_size e \<noteq> ExactSize \<or> fe_version e \<noteq> INBOX_API_VERSION then (e # es, False)
      else (case reset_failed_entries es of (es', ok) \<Rightarrow> (INBOX_FAILED_ENTRY_INIT # es', ok)))"

definition failed_entry_bad :: "u64 \<Rightarrow> failed_entry option \<Rightarrow> failed_entry \<Rightarrow> bool" where
  "failed_entry_bad after prev e \<longleftrightarrow>
     fe_size e \<noteq> ExactSize \<or> fe_version e \<noteq> INBOX_API_VERSION \<or> fe_record_id e \<le> after \<or>
     fe_status e = SALTS_OK \<or>
     (fe_kind e \<noteq> FAILURE_PROCESSING \<and> fe_kind e \<noteq> FAILURE_OWNER_LOST_UNKNOWN) \<or>
     (case prev of None \<Rightarrow> False | Some p \<Rightarrow> fe_record_id p \<ge> fe_record_id e)"

fun check_failed_entries :: "u64 \<Rightarrow> failed_entry option \<Rightarrow> failed_entry list \<Rightarrow> status" where
  "check_failed_entries after prev [] = SALTS_OK"
| "check_failed_entries after prev (e # es) =
     (if failed_entry_bad after prev e then SALTS_EPROTO
      else check_failed_entries after (Some e) es)"

definition turbo_flow_inbox_scan_failed ::
    "'c inbox_handle option \<Rightarrow> u64 \<Rightarrow> failed_entry c_array \<Rightarrow> nat option \<Rightarrow>
     failed_entry list \<times> nat option \<times> status" where
  "turbo_flow_inbox_scan_failed h after entries out_count =
     (if out_count = None \<or> (array_capacity_nonzero entries \<and> (case entries of NullArray n \<Rightarrow> True | Array es \<Rightarrow> False))
      then (array_elems entries, out_count, SALTS_EINVAL)
      else
        (case reset_failed_entries (array_elems entries) of
           (es, False) \<Rightarrow> (es, Some 0, SALTS_EINVAL)
         | (es, True) \<Rightarrow>
             if \<not> flow_inbox_handle_valid h then (es, Some 0, SALTS_EINVAL)
             else
               (case the (op_scan_failed (handle_ops h)) (handle_ctx h) after es of
                  (es', n, rc) \<Rightarrow>
                    (let rc' = (if rc \<noteq> SALTS_OK then rc
                                else if n > length es then SALTS_EPROTO
                                else check_failed_entries after None (take n es'))
                     in if rc' \<noteq> SALTS_OK
                        then (replicate (length es) INBOX_FAILED_ENTRY_INIT, Some 0, rc')
                        else (es', Some n, SALTS_OK)))))"

fun reset_history_entries :: "history_entry list \<Rightarrow> history_entry list \<times> bool" where
  "reset_history_entries [] = ([], True)"
| "reset_history_entries (e # es) =
     (if he_size e \<noteq> ExactSize \<or> he_version e \<noteq> INBOX_API_VERSION then (e # es, False)
      else (case reset_history_entries es of (es', ok) \<Rightarrow> (INBOX_HISTORY_ENTRY_INIT # es', ok)))"

definition history_entry_bad :: "u64 \<Rightarrow> history_entry option \<Rightarrow> history_entry \<Rightarrow> bool" where
  "history_entry_bad after prev e \<longleftrightarrow>
     he_size e \<noteq> ExactSize \<or> he_version e \<noteq> INBOX_API_VERSION \<or> he_record_id e \<le> after \<or>
     (he_kind e \<noteq> TERMINAL_COMPLETED \<and> he_kind e \<noteq> TERMINAL_DISCARDED) \<or>
     (case prev of None \<Rightarrow> False | Some p \<Rightarrow> he_record_id p \<ge> he_record_id e)"

fun check_history_entries :: "u64 \<Rightarrow> history_entry option \<Rightarrow> history_entry list \<Rightarrow> status" where
  "check_history_entries after prev [] = SALTS_OK"
| "check_history_entries after prev (e # es) =
     (if history_entry_bad after prev e then SALTS_EPROTO
      else check_history_entries after (Some e) es)"

definition turbo_flow_inbox_scan_history ::
    "'c inbox_handle option \<Rightarrow> u64 \<Rightarrow> history_entry c_array \<Rightarrow> nat option \<Rightarrow>
     history_entry list \<times> nat option \<times> status" where
  "turbo_flow_inbox_scan_history h after entries out_count =
     (if out_count = None \<or> (array_capacity_nonzero entries \<and> (case entries of NullArray n \<Rightarrow> True | Array es \<Rightarrow> False))
      then (array_elems entries, out_count, SALTS_EINVAL)
      else
        (case reset_history_entries (array_elems entries) of
           (es, False) \<Rightarrow> (es, Some 0, SALTS_EINVAL)
         | (es, True) \<Rightarrow>
             if \<not> flow_inbox_handle_valid h then (es, Some 0, SALTS_EINVAL)
             else
               (case the (op_scan_history (handle_ops h)) (handle_ctx h) after es of
                  (es', n, rc) \<Rightarrow>
                    (let rc' = (if rc \<noteq> SALTS_OK then rc
                                else if n > length es then SALTS_EPROTO
                                else check_history_entries after None (take n es'))
                     in if rc' \<noteq> SALTS_OK
                        then (replicate (length es) INBOX_HISTORY_ENTRY_INIT, Some 0, rc')
                        else (es', Some n, SALTS_OK)))))"

definition turbo_flow_inbox_close ::
    "'c inbox_handle option \<Rightarrow> 'c inbox_handle option \<times> status" where
  "turbo_flow_inbox_close h =
     (if \<not> flow_inbox_handle_valid h then (h, SALTS_EINVAL)
      else (case the (op_close (handle_ops h)) (handle_ctx h) of (c, rc) \<Rightarrow> (with_ctx h c, rc)))"

definition turbo_flow_inbox_snapshot ::
    "'c inbox_handle option \<Rightarrow> inbox_snapshot option \<Rightarrow> inbox_snapshot option \<times> status" where
  "turbo_flow_inbox_snapshot h snapshot =
     (case snapshot of
        None \<Rightarrow> (snapshot, SALTS_EINVAL)
      | Some s \<Rightarrow>
          if sn_size s \<noteq> ExactSize \<or> sn_version s \<noteq> INBOX_API_VERSION then (snapshot, SALTS_EINVAL)
          else if \<not> flow_inbox_handle_valid h then (Some INBOX_SNAPSHOT_INIT, SALTS_EINVAL)
          else
            (case the (op_snapshot (handle_ops h)) (handle_ctx h) INBOX_SNAPSHOT_INIT of
               (s', rc) \<Rightarrow>
                 if rc \<noteq> SALTS_OK then (Some INBOX_SNAPSHOT_INIT, rc)
                 else if sn_size s' \<noteq> ExactSize \<or> sn_version s' \<noteq> INBOX_API_VERSION \<or>
                         \<not> flow_inbox_snapshot_valid s'
                 then (Some INBOX_SNAPSHOT_INIT, SALTS_EPROTO)
                 else (Some s', SALTS_OK)))"

definition turbo_flow_inbox_destroy ::
    "'c inbox_handle option \<Rightarrow> 'c inbox_handle option \<times> status" where
  "turbo_flow_inbox_destroy h =
     (if \<not> flow_inbox_handle_valid h then (h, SALTS_EINVAL)
      else
        (case the (op_destroy (handle_ops h)) (handle_ctx h) of
           (c, rc) \<Rightarrow>
             if rc = SALTS_OK then (Some INBOX_INIT, rc)
             else (map_option (\<lambda>x. x\<lparr>ih_ctx := c\<rparr>) h, rc)))"

section \<open>Scans of the memory provider\<close>

definition phase_ids :: "record_phase \<Rightarrow> memory_slot list \<Rightarrow> u64 \<Rightarrow> u64 set" where
  "phase_ids p ss cur = {mr_record_id r |i r. holds ss i r \<and> mr_phase r = p \<and> cur < mr_record_id r}"

lemma finite_phase_ids [simp]: "finite (phase_ids p ss cur)"
  by (rule finite_subset [of _ UNIV]) simp_all

lemma least_phase_None:
  "least_record (\<lambda>r. mr_phase r = p \<and> mr_record_id r > cur) 0 None ss = None \<Longrightarrow>
   phase_ids p ss cur = {}"
  by (auto simp: least_record_None phase_ids_def)

lemma least_phase_Some:
  assumes "least_record (\<lambda>r. mr_phase r = p \<and> mr_record_id r > cur) 0 None ss = Some (i, r)"
  shows "holds ss i r" and "mr_phase r = p" and "cur < mr_record_id r"
    and "sorted_list_of_set (phase_ids p ss cur) =
      mr_record_id r # sorted_list_of_set (phase_ids p ss (mr_record_id r))"
proof -
  note l = least_record_Some [OF assms]
  show h: "holds ss i r" and ph: "mr_phase r = p" and gt: "cur < mr_record_id r" using l by auto
  have mem: "mr_record_id r \<in> phase_ids p ss cur" using h ph gt by (auto simp: phase_ids_def)
  have le: "mr_record_id r \<le> x" if "x \<in> phase_ids p ss cur" for x
    using that l(3) by (auto simp: phase_ids_def)
  have min: "Min (phase_ids p ss cur) = mr_record_id r"
    using mem le by (intro Min_eqI) auto
  have "phase_ids p ss cur - {mr_record_id r} = phase_ids p ss (mr_record_id r)"
    using gt by (auto simp: phase_ids_def dest: order.strict_trans)
      (use le in \<open>force simp: phase_ids_def order_le_less\<close>)
  with min mem show "sorted_list_of_set (phase_ids p ss cur) =
      mr_record_id r # sorted_list_of_set (phase_ids p ss (mr_record_id r))"
    by (subst sorted_list_of_set_nonempty) auto
qed

lemma scan_failed_ids:
  assumes "scan_failed_loop ss cur es = (es', n)"
  shows "n \<le> length es" and "length es' = length es"
    and "map fe_record_id (take n es') =
      take (length es) (sorted_list_of_set (phase_ids RECORD_FAILED ss cur))"
proof -
  have "n \<le> length es \<and> length es' = length es \<and> map fe_record_id (take n es') =
      take (length es) (sorted_list_of_set (phase_ids RECORD_FAILED ss cur))"
    using assms
  proof (induction es arbitrary: cur es' n)
    case (Cons e es)
    show ?case
    proof (cases "least_record (\<lambda>r. mr_phase r = RECORD_FAILED \<and> mr_record_id r > cur) 0 None ss")
      case None
      with Cons.prems least_phase_None [OF None] show ?thesis by auto
    next
      case (Some ir)
      then obtain i r where ir: "ir = (i, r)" by (cases ir)
      obtain es2 k where k: "scan_failed_loop ss (mr_record_id r) es = (es2, k)"
        by (cases "scan_failed_loop ss (mr_record_id r) es")
      with Cons.prems Some ir Cons.IH [OF k] least_phase_Some(4) [OF Some [unfolded ir]]
      show ?thesis by auto
    qed
  qed simp
  then show "n \<le> length es" "length es' = length es" "map fe_record_id (take n es') =
      take (length es) (sorted_list_of_set (phase_ids RECORD_FAILED ss cur))" by auto
qed

lemma scan_history_ids:
  assumes "scan_history_loop ss cur es = (es', n)"
  shows "n \<le> length es" and "length es' = length es"
    and "map he_record_id (take n es') =
      take (length es) (sorted_list_of_set (phase_ids RECORD_TOMBSTONE ss cur))"
proof -
  have "n \<le> length es \<and> length es' = length es \<and> map he_record_id (take n es') =
      take (length es) (sorted_list_of_set (phase_ids RECORD_TOMBSTONE ss cur))"
    using assms
  proof (induction es arbitrary: cur es' n)
    case (Cons e es)
    show ?case
    proof (cases "least_record (\<lambda>r. mr_phase r = RECORD_TOMBSTONE \<and> mr_record_id r > cur) 0 None ss")
      case None
      with Cons.prems least_phase_None [OF None] show ?thesis by auto
    next
      case (Some ir)
      then obtain i r where ir: "ir = (i, r)" by (cases ir)
      obtain es2 k where k: "scan_history_loop ss (mr_record_id r) es = (es2, k)"
        by (cases "scan_history_loop ss (mr_record_id r) es")
      with Cons.prems Some ir Cons.IH [OF k] least_phase_Some(4) [OF Some [unfolded ir]]
      show ?thesis by auto
    qed
  qed simp
  then show "n \<le> length es" "length es' = length es" "map he_record_id (take n es') =
      take (length es) (sorted_list_of_set (phase_ids RECORD_TOMBSTONE ss cur))" by auto
qed

lemma scan_failed_accepted:
  assumes ok: "records_ok ss l" and "scan_failed_loop ss cur es = (es', n)"
    and "\<forall>e \<in> set es. fe_size e = ExactSize \<and> fe_version e = INBOX_API_VERSION"
    and "after \<le> cur" and "case prev of None \<Rightarrow> True | Some p \<Rightarrow> fe_record_id p \<le> cur"
  shows "check_failed_entries after prev (take n es') = SALTS_OK"
  using assms(2-)
proof (induction es arbitrary: cur es' n prev)
  case (Cons e es)
  show ?case
  proof (cases "least_record (\<lambda>r. mr_phase r = RECORD_FAILED \<and> mr_record_id r > cur) 0 None ss")
    case None
    with Cons.prems show ?thesis by auto
  next
    case (Some ir)
    then obtain i r where ir: "ir = (i, r)" by (cases ir)
    obtain es2 k where k: "scan_failed_loop ss (mr_record_id r) es = (es2, k)"
      by (cases "scan_failed_loop ss (mr_record_id r) es")
    note l = least_phase_Some(1-3) [OF Some [unfolded ir]]
    have "mr_failure_status r \<noteq> SALTS_OK" "mr_failure_kind r = FAILURE_PROCESSING"
      using ok l(1,2) by (auto simp: records_ok_def record_ok_def)
    moreover have "check_failed_entries after (Some (e\<lparr>fe_record_id := mr_record_id r,
        fe_status := mr_failure_status r, fe_kind := mr_failure_kind r\<rparr>)) (take k es2) = SALTS_OK"
      by (rule Cons.IH [OF k]) (use Cons.prems l(3) in auto)
    ultimately show ?thesis
      using Cons.prems Some ir k l(3) by (auto simp: failed_entry_bad_def not_le split: option.splits)
  qed
qed simp

lemma scan_history_accepted:
  assumes ok: "records_ok ss l" and "scan_history_loop ss cur es = (es', n)"
    and "\<forall>e \<in> set es. he_size e = ExactSize \<and> he_version e = INBOX_API_VERSION"
    and "after \<le> cur" and "case prev of None \<Rightarrow> True | Some p \<Rightarrow> he_record_id p \<le> cur"
  shows "check_history_entries after prev (take n es') = SALTS_OK"
  using assms(2-)
proof (induction es arbitrary: cur es' n prev)
  case (Cons e es)
  show ?case
  proof (cases "least_record (\<lambda>r. mr_phase r = RECORD_TOMBSTONE \<and> mr_record_id r > cur) 0 None ss")
    case None
    with Cons.prems show ?thesis by auto
  next
    case (Some ir)
    then obtain i r where ir: "ir = (i, r)" by (cases ir)
    obtain es2 k where k: "scan_history_loop ss (mr_record_id r) es = (es2, k)"
      by (cases "scan_history_loop ss (mr_record_id r) es")
    note l = least_phase_Some(1-3) [OF Some [unfolded ir]]
    have "mr_terminal_kind r \<noteq> TERMINAL_ZERO"
      using ok l(1,2) by (auto simp: records_ok_def record_ok_def)
    then have "mr_terminal_kind r = TERMINAL_COMPLETED \<or> mr_terminal_kind r = TERMINAL_DISCARDED"
      by (cases "mr_terminal_kind r") auto
    moreover have "check_history_entries after (Some (e\<lparr>he_record_id := mr_record_id r,
        he_kind := mr_terminal_kind r\<rparr>)) (take k es2) = SALTS_OK"
      by (rule Cons.IH [OF k]) (use Cons.prems l(3) in auto)
    ultimately show ?thesis
      using Cons.prems Some ir k l(3) by (auto simp: history_entry_bad_def not_le split: option.splits)
  qed
qed simp

section \<open>Snapshots of the memory provider\<close>

lemma snapshot_count_fields:
  "sn_pending_records (snapshot_count ss sn) =
     sn_pending_records sn + of_nat (count (in_phase RECORD_PENDING) ss)"
  "sn_failed_records (snapshot_count ss sn) =
     sn_failed_records sn + of_nat (count (in_phase RECORD_FAILED) ss)"
  by (induction ss sn rule: snapshot_count.induct)
    (auto simp: in_phase_def slot_holds_def split: option.splits)

lemma snapshot_count_frame:
  "snapshot_count ss sn = sn\<lparr>sn_pending_records := sn_pending_records (snapshot_count ss sn),
     sn_failed_records := sn_failed_records (snapshot_count ss sn)\<rparr>"
  by (induction ss sn rule: snapshot_count.induct) (auto split: option.splits)

lemma count_live_split:
  "count live_slot ss = count (in_phase RECORD_PENDING) ss + count (in_phase RECORD_CLAIMED) ss +
     count (in_phase RECORD_FAILED) ss"
proof (induction ss)
  case (Cons s ss)
  show ?case
  proof (cases "sl_record s")
    case (Some r)
    with Cons show ?thesis
      by (cases "mr_phase r") (simp_all add: live_slot_def in_phase_def slot_holds_def)
  qed (use Cons in \<open>simp add: live_slot_def in_phase_def slot_holds_def\<close>)
qed simp

lemma memory_snapshot_valid:
  assumes inv: "inbox_inv m fs"
  shows "flow_inbox_snapshot_valid (fst (flow_inbox_memory_snapshot m INBOX_SNAPSHOT_INIT))"
proof -
  let ?s = "fst (flow_inbox_memory_snapshot m INBOX_SNAPSHOT_INIT)"
  let ?p = "count (in_phase RECORD_PENDING) (im_records m)"
  let ?f = "count (in_phase RECORD_FAILED) (im_records m)"
  have c: "counters_ok m fs" and l: "ledger_ok m" using inv by (auto simp: inbox_inv_def)
  note wb = inv_word_bounds [OF inv]
  have split: "unat (im_live_records m) = ?p + unat (im_in_flight_claims m) + ?f"
    using c count_live_split [of "im_records m"] by (simp add: counters_ok_def)
  have p: "unat (of_nat ?p :: size_t) = ?p" and f: "unat (of_nat ?f :: size_t) = ?f"
    using split wb(1) by (simp_all add: unat_of_nat)
  have fields: "sn_pending_records ?s = of_nat ?p" "sn_failed_records ?s = of_nat ?f"
    "sn_records ?s = im_live_records m" "sn_history_records ?s = im_history_records m"
    "sn_in_flight_claims ?s = im_in_flight_claims m" "sn_admitted ?s = im_admitted m"
    "sn_completed ?s = im_completed m" "sn_failed ?s = im_failed m" "sn_retried ?s = im_retried m"
    "sn_discarded ?s = im_discarded m" "sn_generation ?s = 1" "sn_accepting ?s = 0 \<or> sn_accepting ?s = 1"
    unfolding flow_inbox_memory_snapshot_def fst_conv
    by (simp_all add: snapshot_count_fields INBOX_SNAPSHOT_INIT_def) (subst (1 2) snapshot_count_frame; simp)+
  note adm = l [unfolded ledger_ok_def]
  have 1: "unat (im_live_records m - of_nat ?p) = unat (im_live_records m) - ?p"
    using split p by (subst unat_sub_le) auto
  have 2: "unat (im_live_records m - of_nat ?p - of_nat ?f) = unat (im_live_records m) - ?p - ?f"
    using split 1 f by (subst unat_sub_le) auto
  have 3: "unat (im_admitted m - im_live_records m) = unat (im_admitted m) - unat (im_live_records m)"
    "unat (im_admitted m - im_completed m) = unat (im_admitted m) - unat (im_completed m)"
    using adm by (subst unat_sub_le; simp)+
  have 4: "unat (im_completed m + im_discarded m) = unat (im_completed m) + unat (im_discarded m)"
    using adm unat_bound64 [of "im_admitted m"] by (intro unat_add_bounded) simp
  have 5: "im_in_flight_claims m = im_live_records m - of_nat ?p - of_nat ?f"
    using 2 split by (intro word_unat_eq_iff [THEN iffD2]) simp
  show ?thesis
    using adm split 5 fields(12)
    by (simp add: flow_inbox_snapshot_valid_def fields word_less_nat_alt 1 3 4 p f Let_def not_less)
qed

lemma memory_snapshot_frame:
  "snd (flow_inbox_memory_snapshot m sn) = SALTS_OK"
  "sn_size (fst (flow_inbox_memory_snapshot m sn)) = sn_size sn"
  "sn_version (fst (flow_inbox_memory_snapshot m sn)) = sn_version sn"
  unfolding flow_inbox_memory_snapshot_def fst_conv snd_conv
  by (simp, (subst snapshot_count_frame, simp)+)

lemma reset_failed_init:
  "\<forall>e \<in> set es. fe_size e = ExactSize \<and> fe_version e = INBOX_API_VERSION \<Longrightarrow>
   reset_failed_entries es = (replicate (length es) INBOX_FAILED_ENTRY_INIT, True)"
proof (induction es)
  case (Cons e es)
  have "reset_failed_entries es = (replicate (length es) INBOX_FAILED_ENTRY_INIT, True)"
    by (rule Cons.IH) (use Cons.prems in simp)
  moreover have "fe_size e = ExactSize" "fe_version e = INBOX_API_VERSION" using Cons.prems by simp_all
  ultimately show ?case by simp
qed simp

section \<open>The provider contract\<close>

text \<open>What the comment on \<open>turbo_flow_inbox_ops_v2_s\<close> asks of a provider, with the consistency
  of its answers that the entry points check again.\<close>

locale inbox_provider =
  fixes ops :: "'c inbox_ops" and inv :: "'c \<Rightarrow> bool"
  assumes table: "op_size ops = ExactSize" "op_version ops = INBOX_API_VERSION"
      "op_admit ops \<noteq> None" "op_claim ops \<noteq> None" "op_claim_ex ops \<noteq> None"
      "op_complete ops \<noteq> None" "op_fail ops \<noteq> None" "op_retry ops \<noteq> None"
      "op_discard ops \<noteq> None" "op_forget ops \<noteq> None" "op_scan_failed ops \<noteq> None"
      "op_scan_history ops \<noteq> None" "op_close ops \<noteq> None" "op_snapshot ops \<noteq> None"
      "op_destroy ops \<noteq> None"
    and admit_law: "inv c \<Longrightarrow> flow_inbox_record_valid (Some r) = SALTS_OK \<Longrightarrow> record_wf r \<Longrightarrow>
      the (op_admit ops) c r INBOX_RECEIPT_INIT = (c', rp, rc) \<Longrightarrow>
      inv c' \<and> (rc = SALTS_OK \<longrightarrow>
        rp_size rp = ExactSize \<and> rp_version rp = INBOX_API_VERSION \<and> rp_record_id rp \<noteq> 0)"
    and claim_law: "inv c \<Longrightarrow> the (op_claim ops) c INBOX_CLAIM_INIT = (c', cl, rc) \<Longrightarrow>
      inv c' \<and> (rc = SALTS_OK \<longrightarrow> flow_inbox_claim_valid (Some cl) \<and>
        flow_inbox_record_valid (Some (cl_record cl)) = SALTS_OK)"
    and claim_ex_law: "inv c \<Longrightarrow> the (op_claim_ex ops) c q INBOX_CLAIM_INIT = (c', cl, rc) \<Longrightarrow>
      inv c' \<and> (rc = SALTS_OK \<longrightarrow> flow_inbox_claim_valid (Some cl) \<and>
        flow_inbox_record_valid (Some (cl_record cl)) = SALTS_OK)"
    and settle_law: "inv c \<Longrightarrow> inv (fst (the (op_complete ops) c rid tok))"
      "inv c \<Longrightarrow> st \<noteq> SALTS_OK \<Longrightarrow> inv (fst (the (op_fail ops) c rid tok st))"
      "inv c \<Longrightarrow> inv (fst (the (op_retry ops) c rid))"
      "inv c \<Longrightarrow> inv (fst (the (op_discard ops) c rid))"
      "inv c \<Longrightarrow> inv (fst (the (op_forget ops) c rid))"
      "inv c \<Longrightarrow> inv (fst (the (op_close ops) c))"
    and scan_failed_law: "inv c \<Longrightarrow>
      \<forall>e \<in> set es. fe_size e = ExactSize \<and> fe_version e = INBOX_API_VERSION \<Longrightarrow>
      the (op_scan_failed ops) c after es = (es', n, rc) \<Longrightarrow>
      rc = SALTS_OK \<and> n \<le> length es \<and> check_failed_entries after None (take n es') = SALTS_OK"
    and scan_history_law: "inv c \<Longrightarrow>
      \<forall>e \<in> set hs. he_size e = ExactSize \<and> he_version e = INBOX_API_VERSION \<Longrightarrow>
      the (op_scan_history ops) c after hs = (hs', n, rc) \<Longrightarrow>
      rc = SALTS_OK \<and> n \<le> length hs \<and> check_history_entries after None (take n hs') = SALTS_OK"
    and snapshot_law: "inv c \<Longrightarrow> the (op_snapshot ops) c INBOX_SNAPSHOT_INIT = (s, rc) \<Longrightarrow>
      rc = SALTS_OK \<and> sn_size s = ExactSize \<and> sn_version s = INBOX_API_VERSION \<and>
      flow_inbox_snapshot_valid s"
begin

definition bound :: "'c inbox_handle \<Rightarrow> bool" where
  "bound h \<longleftrightarrow> ih_size h = ExactSize \<and> ih_version h = INBOX_API_VERSION \<and> ih_ops h = Some ops \<and>
     (\<exists>c. ih_ctx h = Some c \<and> inv c)"

lemma bound_valid: "bound h \<Longrightarrow> flow_inbox_handle_valid (Some h)"
  using table by (auto simp: bound_def flow_inbox_handle_valid_def)

lemma bound_ctx: "bound h \<Longrightarrow> ih_ops h = Some ops" "bound h \<Longrightarrow> inv (the (ih_ctx h))"
  by (auto simp: bound_def)

lemma bound_with: "bound h \<Longrightarrow> inv c \<Longrightarrow> \<exists>h'. with_ctx (Some h) c = Some h' \<and> bound h'"
  by (auto simp: bound_def with_ctx_def)

lemma host_admit:
  assumes "bound h" and "flow_inbox_record_valid (Some r) = SALTS_OK" and "record_wf r"
    and "turbo_flow_inbox_admit (Some h) (Some r) (Some INBOX_RECEIPT_INIT) = (h', rp, rc)"
  shows "\<exists>g c p. h' = Some g \<and> bound g \<and>
    the (op_admit ops) (the (ih_ctx h)) r INBOX_RECEIPT_INIT = (c, p, rc) \<and> ih_ctx g = Some c \<and>
    rp = Some (if rc = SALTS_OK then p else INBOX_RECEIPT_INIT)"
proof -
  obtain c p x where op: "the (op_admit ops) (the (ih_ctx h)) r INBOX_RECEIPT_INIT = (c, p, x)"
    by (cases "the (op_admit ops) (the (ih_ctx h)) r INBOX_RECEIPT_INIT")
  note law = admit_law [OF bound_ctx(2) [OF assms(1)] assms(2,3) op]
  obtain g where g: "with_ctx (Some h) c = Some g" "bound g" using bound_with assms(1) law by blast
  have "(h', rp, rc) = (Some g, Some (if x = SALTS_OK then p else INBOX_RECEIPT_INIT), x)"
    using assms(4) law g(1) bound_valid [OF assms(1)] assms(2) op
    by (simp add: turbo_flow_inbox_admit_def bound_ctx(1) [OF assms(1)] INBOX_RECEIPT_INIT_def split: if_splits)
  moreover have "ih_ctx g = Some c" using g(1) by (auto simp: with_ctx_def)
  ultimately show ?thesis using g(2) op by auto
qed

lemma host_claim_ex:
  assumes "bound h" and "flow_inbox_claim_request_valid q"
    and "turbo_flow_inbox_claim_ex (Some h) q (Some INBOX_CLAIM_INIT) = (h', cl, rc)"
  shows "\<exists>g c x. h' = Some g \<and> bound g \<and>
    the (op_claim_ex ops) (the (ih_ctx h)) q INBOX_CLAIM_INIT = (c, x, rc) \<and> ih_ctx g = Some c \<and>
    cl = Some (if rc = SALTS_OK then x else INBOX_CLAIM_INIT)"
proof -
  obtain c p x where op: "the (op_claim_ex ops) (the (ih_ctx h)) q INBOX_CLAIM_INIT = (c, p, x)"
    by (cases "the (op_claim_ex ops) (the (ih_ctx h)) q INBOX_CLAIM_INIT")
  note law = claim_ex_law [OF bound_ctx(2) [OF assms(1)] op]
  obtain g where g: "with_ctx (Some h) c = Some g" "bound g" using bound_with assms(1) law by blast
  have "(h', cl, rc) = (Some g, Some (if x = SALTS_OK then p else INBOX_CLAIM_INIT), x)"
    using assms(3) law g(1) bound_valid [OF assms(1)] assms(2) op
    by (simp add: turbo_flow_inbox_claim_ex_def claim_result_def flow_inbox_claim_valid_def
        bound_ctx(1) [OF assms(1)] INBOX_CLAIM_INIT_def split: if_splits)
  moreover have "ih_ctx g = Some c" using g(1) by (auto simp: with_ctx_def)
  ultimately show ?thesis using g(2) op by auto
qed

lemma host_snapshot:
  assumes "bound h"
  shows "\<exists>s. turbo_flow_inbox_snapshot (Some h) (Some INBOX_SNAPSHOT_INIT) = (Some s, SALTS_OK) \<and>
    flow_inbox_snapshot_valid s"
proof -
  obtain s rc where op: "the (op_snapshot ops) (the (ih_ctx h)) INBOX_SNAPSHOT_INIT = (s, rc)"
    by (cases "the (op_snapshot ops) (the (ih_ctx h)) INBOX_SNAPSHOT_INIT")
  show ?thesis
    using snapshot_law [OF bound_ctx(2) [OF assms] op] bound_valid [OF assms] op
    by (simp add: turbo_flow_inbox_snapshot_def bound_ctx(1) [OF assms] INBOX_SNAPSHOT_INIT_def)
qed

lemma host_complete:
  assumes "bound h" and "turbo_flow_inbox_complete (Some h) claim = (h', claim', rc)"
  shows "\<exists>g. h' = Some g \<and> bound g \<and> (claim' = claim \<or> claim' = Some INBOX_CLAIM_INIT)"
proof (cases "flow_inbox_claim_valid claim")
  case True
  obtain c x where op: "the (op_complete ops) (the (ih_ctx h)) (cl_record_id (the claim))
      (cl_claim_token (the claim)) = (c, x)" by (meson surj_pair)
  then have "inv c" using settle_law(1) [OF bound_ctx(2) [OF assms(1)]] by (metis fst_conv)
  with bound_with assms(1) obtain g where g: "with_ctx (Some h) c = Some g" "bound g" by blast
  then have "h' = Some g \<and> (claim' = claim \<or> claim' = Some INBOX_CLAIM_INIT)"
    using assms(2) True bound_valid [OF assms(1)] op
    by (auto simp: turbo_flow_inbox_complete_def settled_claim_def bound_ctx(1) [OF assms(1)]
        split: if_splits)
  with g show ?thesis by blast
qed (use assms bound_valid in \<open>auto simp: turbo_flow_inbox_complete_def\<close>)

lemma host_scan_failed:
  assumes "bound h" and "\<forall>e \<in> set es. fe_size e = ExactSize \<and> fe_version e = INBOX_API_VERSION"
  shows "\<exists>es' n. turbo_flow_inbox_scan_failed (Some h) after (Array es) (Some 0) = (es', Some n, SALTS_OK) \<and>
    the (op_scan_failed ops) (the (ih_ctx h)) after (replicate (length es) INBOX_FAILED_ENTRY_INIT) =
      (es', n, SALTS_OK)"
proof -
  let ?init = "replicate (length es) INBOX_FAILED_ENTRY_INIT"
  have reset: "reset_failed_entries es = (?init, True)"
    by (rule reset_failed_init [OF assms(2)])
  obtain es' n rc where op: "the (op_scan_failed ops) (the (ih_ctx h)) after ?init = (es', n, rc)"
    using prod_cases3 by blast
  have "\<forall>e \<in> set ?init. fe_size e = ExactSize \<and> fe_version e = INBOX_API_VERSION"
    by (auto simp: INBOX_FAILED_ENTRY_INIT_def)
  from scan_failed_law [OF bound_ctx(2) [OF assms(1)] this op]
  have law: "rc = SALTS_OK" "n \<le> length es" "check_failed_entries after None (take n es') = SALTS_OK"
    by simp_all
  show ?thesis
    unfolding turbo_flow_inbox_scan_failed_def array_elems.simps reset prod.case
    using bound_valid [OF assms(1)] op law
    by (simp add: bound_ctx(1) [OF assms(1)])
qed

end

section \<open>The memory provider fulfils the contract\<close>

lemma memory_admit_inv:
  assumes inv: "inbox_inv m fs" and valid: "flow_inbox_record_valid (Some r) = SALTS_OK"
    and wf: "record_wf r"
  shows "inbox_inv (fst (flow_inbox_memory_admit a m r rp)) fs"
proof (cases "admit_reserve m r")
  case (Pair m1 d)
  show ?thesis
  proof (cases d)
    case (AdmitDone rc rid)
    have "im_next_record_id m \<noteq> 0" using inv by (simp add: inbox_inv_def ids_ok_def)
    with admit_reserve_done [of m r m1] Pair AdmitDone inv show ?thesis
      by (auto simp: flow_inbox_memory_admit_def)
  next
    case (AdmitReserved i n rid)
    let ?f = "\<lparr>fl_source = r, fl_slot = i, fl_bytes = n, fl_record_id = rid\<rparr>"
    have inv1: "inbox_inv m1 (?f # fs)"
      using reserve_inv [OF inv _ valid wf] Pair AdmitReserved by blast
    show ?thesis
    proof (cases "flow_inbox_memory_record_copy a r n")
      case None
      with Pair AdmitReserved release_inv [OF inv1, of ?f] show ?thesis
        by (simp add: flow_inbox_memory_admit_def admit_abort_def)
    next
      case (Some rec)
      then have "flow_inbox_memory_record_copy True (fl_source ?f) (fl_bytes ?f) = Some rec"
        by (cases a) (simp_all add: flow_inbox_memory_record_copy_def)
      note com = commit_inv [OF inv1 _ this]
      obtain m2 x rc where "admit_commit m1 r i n (rec\<lparr>mr_record_id := rid\<rparr>) = (m2, x, rc)"
        by (cases "admit_commit m1 r i n (rec\<lparr>mr_record_id := rid\<rparr>)")
      with com Pair AdmitReserved Some show ?thesis
        by (simp add: flow_inbox_memory_admit_def)
    qed
  qed
qed

lemma find_admission_id:
  assumes "inbox_inv m fs" and "flow_inbox_memory_find_admission m r = Some x"
  shows "mr_record_id x \<noteq> 0"
proof -
  obtain i where "holds (im_records m) i x" using find_admission_holds(1) [OF assms(2)] by blast
  with assms(1) show ?thesis unfolding inbox_inv_def ids_ok_def id_issued_def by blast
qed

lemma admit_commit_id:
  assumes "inbox_inv m fs" and "admit_commit m src i n rec = (m', rid, SALTS_OK)"
    and "mr_record_id rec \<noteq> 0"
  shows "\<exists>x. rid = Some x \<and> x \<noteq> 0"
  using assms find_admission_id [OF assms(1)]
  by (auto simp: admit_commit_def split: option.splits if_splits)

lemma admit_reserve_replayed:
  assumes "admit_reserve m r = (m1, AdmitDone SALTS_OK rid)" and "im_next_record_id m \<noteq> 0"
  shows "\<exists>e. flow_inbox_memory_find_admission m r = Some e \<and> rid = Some (mr_record_id e) \<and>
    flow_inbox_record_equal (mr_view e) r"
proof (cases "flow_inbox_memory_find_admission m r")
  case None
  obtain st n where sz: "admit_size r = (st, n)" by (cases "admit_size r")
  have "snd (admit_reserve m r) \<noteq> AdmitDone SALTS_OK rid"
    unfolding admit_reserve_def None sz Let_def using assms(2) by (simp split: option.split)
  with assms(1) show ?thesis by simp
next
  case (Some e)
  with assms(1) show ?thesis
    by (simp add: admit_reserve_def split: prod.splits if_splits)
qed

lemma memory_admit_receipt:
  assumes inv: "inbox_inv m fs" and valid: "flow_inbox_record_valid (Some r) = SALTS_OK"
    and wf: "record_wf r"
    and adm: "flow_inbox_memory_admit a m r INBOX_RECEIPT_INIT = (m', rp, SALTS_OK)"
  shows "rp_size rp = ExactSize \<and> rp_version rp = INBOX_API_VERSION \<and> rp_record_id rp \<noteq> 0"
proof -
  have nz: "im_next_record_id m \<noteq> 0" using inv by (simp add: inbox_inv_def ids_ok_def)
  obtain m1 d where d: "admit_reserve m r = (m1, d)" by (cases "admit_reserve m r")
  have "\<exists>x. rp = receipt_with INBOX_RECEIPT_INIT (Some x) \<and> x \<noteq> 0"
  proof (cases d)
    case (AdmitDone rc rid)
    then have rp: "rc = SALTS_OK" "rp = receipt_with INBOX_RECEIPT_INIT rid"
      using d adm by (simp_all add: flow_inbox_memory_admit_def)
    then obtain e where "flow_inbox_memory_find_admission m r = Some e" "rid = Some (mr_record_id e)"
      using admit_reserve_replayed [of m r m1 rid] d AdmitDone nz by blast
    with rp find_admission_id [OF inv] show ?thesis by blast
  next
    case (AdmitReserved i n rid)
    let ?f = "\<lparr>fl_source = r, fl_slot = i, fl_bytes = n, fl_record_id = rid\<rparr>"
    have inv1: "inbox_inv m1 (?f # fs)"
      using reserve_inv [OF inv _ valid wf] d AdmitReserved by blast
    have "rid \<noteq> 0" using admit_reserve_reserved(9) [of m r m1 i n rid] d AdmitReserved nz by simp
    obtain rec where rec: "flow_inbox_memory_record_copy a r n = Some rec"
      using adm d AdmitReserved by (cases "flow_inbox_memory_record_copy a r n")
        (simp_all add: flow_inbox_memory_admit_def)
    obtain m2 x rc where c: "admit_commit m1 r i n (rec\<lparr>mr_record_id := rid\<rparr>) = (m2, x, rc)"
      by (cases "admit_commit m1 r i n (rec\<lparr>mr_record_id := rid\<rparr>)")
    with adm d AdmitReserved rec have "rc = SALTS_OK" "rp = receipt_with INBOX_RECEIPT_INIT x"
      by (simp_all add: flow_inbox_memory_admit_def)
    with admit_commit_id [OF inv1] c \<open>rid \<noteq> 0\<close> show ?thesis by fastforce
  qed
  then show ?thesis by (auto simp: receipt_with_def INBOX_RECEIPT_INIT_def)
qed

lemma memory_claim_ok:
  assumes inv: "inbox_inv m fs"
    and cl: "flow_inbox_memory_claim_select m q INBOX_CLAIM_INIT = (m', cl, SALTS_OK)"
  shows "flow_inbox_claim_valid (Some cl) \<and> flow_inbox_record_valid (Some (cl_record cl)) = SALTS_OK"
proof -
  obtain i r where l: "least_record (claimable (the q)) 0 None (im_records m) = Some (i, r)"
    and c: "cl = INBOX_CLAIM_INIT\<lparr>cl_record_id := mr_record_id r,
      cl_claim_token := im_next_claim_token m, cl_record := mr_view r\<rparr>"
    using cl by (auto simp: flow_inbox_memory_claim_select_def Let_def split: option.splits if_splits)
  from least_record_Some(1) [OF l] have h: "holds (im_records m) i r" .
  have "mr_record_id r \<noteq> 0" "im_next_claim_token m \<noteq> 0"
    "flow_inbox_record_valid (Some (mr_view r)) = SALTS_OK"
    using inv h unfolding inbox_inv_def ids_ok_def id_issued_def tokens_ok_def records_ok_def record_ok_def
    by blast+
  then show ?thesis by (simp add: c flow_inbox_claim_valid_def INBOX_CLAIM_INIT_def)
qed

abbreviation memory_inv :: "flow_inbox_memory \<Rightarrow> bool" where
  "memory_inv m \<equiv> \<exists>fs. inbox_inv m fs"

lemma memory_claim_law:
  assumes "memory_inv m" and "flow_inbox_memory_claim_select m q INBOX_CLAIM_INIT = (m', cl, rc)"
  shows "memory_inv m' \<and> (rc = SALTS_OK \<longrightarrow> flow_inbox_claim_valid (Some cl) \<and>
    flow_inbox_record_valid (Some (cl_record cl)) = SALTS_OK)"
  using assms claim_select_inv [of m _ q INBOX_CLAIM_INIT] memory_claim_ok by fastforce

lemma memory_admit_law:
  assumes "memory_inv m" and "flow_inbox_record_valid (Some r) = SALTS_OK" and "record_wf r"
    and "flow_inbox_memory_admit a m r INBOX_RECEIPT_INIT = (m', rp, rc)"
  shows "memory_inv m' \<and> (rc = SALTS_OK \<longrightarrow>
    rp_size rp = ExactSize \<and> rp_version rp = INBOX_API_VERSION \<and> rp_record_id rp \<noteq> 0)"
proof -
  obtain fs where inv: "inbox_inv m fs" using assms(1) by blast
  from memory_admit_inv [OF inv assms(2,3), of a INBOX_RECEIPT_INIT] assms(4)
  have "inbox_inv m' fs" by simp
  with memory_admit_receipt [OF inv assms(2,3)] assms(4) show ?thesis by blast
qed

lemma memory_scan_failed_law:
  assumes "memory_inv m" and "\<forall>e \<in> set es. fe_size e = ExactSize \<and> fe_version e = INBOX_API_VERSION"
    and "flow_inbox_memory_scan_failed m after es = (es', n, rc)"
  shows "rc = SALTS_OK \<and> n \<le> length es \<and> check_failed_entries after None (take n es') = SALTS_OK"
proof -
  have loop: "scan_failed_loop (im_records m) after es = (es', n)" and "rc = SALTS_OK"
    using assms(3) by (auto simp: flow_inbox_memory_scan_failed_def split: prod.splits)
  moreover obtain l where "records_ok (im_records m) l" using assms(1) unfolding inbox_inv_def by blast
  ultimately show ?thesis
    using scan_failed_ids(1) [OF loop] scan_failed_accepted [OF _ loop assms(2)] by simp
qed

lemma memory_scan_history_law:
  assumes "memory_inv m" and "\<forall>e \<in> set es. he_size e = ExactSize \<and> he_version e = INBOX_API_VERSION"
    and "flow_inbox_memory_scan_history m after es = (es', n, rc)"
  shows "rc = SALTS_OK \<and> n \<le> length es \<and> check_history_entries after None (take n es') = SALTS_OK"
proof -
  have loop: "scan_history_loop (im_records m) after es = (es', n)" and "rc = SALTS_OK"
    using assms(3) by (auto simp: flow_inbox_memory_scan_history_def split: prod.splits)
  moreover obtain l where "records_ok (im_records m) l" using assms(1) unfolding inbox_inv_def by blast
  ultimately show ?thesis
    using scan_history_ids(1) [OF loop] scan_history_accepted [OF _ loop assms(2)] by simp
qed

lemma memory_snapshot_law:
  assumes "memory_inv m" and "flow_inbox_memory_snapshot m INBOX_SNAPSHOT_INIT = (s, rc)"
  shows "rc = SALTS_OK \<and> sn_size s = ExactSize \<and> sn_version s = INBOX_API_VERSION \<and>
    flow_inbox_snapshot_valid s"
  using assms memory_snapshot_valid [of m] memory_snapshot_frame [of m INBOX_SNAPSHOT_INIT]
  by (auto simp: INBOX_SNAPSHOT_INIT_def)

lemma memory_table:
  "op_size (flow_inbox_memory_ops a) = ExactSize" "op_version (flow_inbox_memory_ops a) = INBOX_API_VERSION"
  "op_admit (flow_inbox_memory_ops a) = Some (flow_inbox_memory_admit a)"
  "op_claim (flow_inbox_memory_ops a) = Some flow_inbox_memory_claim"
  "op_claim_ex (flow_inbox_memory_ops a) = Some flow_inbox_memory_claim_ex"
  "op_complete (flow_inbox_memory_ops a) = Some flow_inbox_memory_complete"
  "op_fail (flow_inbox_memory_ops a) = Some flow_inbox_memory_fail"
  "op_retry (flow_inbox_memory_ops a) = Some flow_inbox_memory_retry"
  "op_discard (flow_inbox_memory_ops a) = Some flow_inbox_memory_discard"
  "op_forget (flow_inbox_memory_ops a) = Some flow_inbox_memory_forget"
  "op_scan_failed (flow_inbox_memory_ops a) = Some flow_inbox_memory_scan_failed"
  "op_scan_history (flow_inbox_memory_ops a) = Some flow_inbox_memory_scan_history"
  "op_close (flow_inbox_memory_ops a) = Some flow_inbox_memory_close"
  "op_snapshot (flow_inbox_memory_ops a) = Some flow_inbox_memory_snapshot"
  "op_destroy (flow_inbox_memory_ops a) = Some flow_inbox_memory_destroy"
  by (simp_all add: flow_inbox_memory_ops_def)

lemma memory_settle_law:
  "memory_inv m \<Longrightarrow> memory_inv (fst (flow_inbox_memory_complete m rid tok))"
  "memory_inv m \<Longrightarrow> st \<noteq> SALTS_OK \<Longrightarrow> memory_inv (fst (flow_inbox_memory_fail m rid tok st))"
  "memory_inv m \<Longrightarrow> memory_inv (fst (flow_inbox_memory_retry m rid))"
  "memory_inv m \<Longrightarrow> memory_inv (fst (flow_inbox_memory_discard m rid))"
  "memory_inv m \<Longrightarrow> memory_inv (fst (flow_inbox_memory_forget m rid))"
  "memory_inv m \<Longrightarrow> memory_inv (fst (flow_inbox_memory_close m))"
  by (blast intro: complete_inv fail_inv retry_inv discard_inv forget_inv close_inv)+

lemmas memory_laws = memory_admit_law memory_claim_law memory_settle_law memory_scan_failed_law
  memory_scan_history_law memory_snapshot_law

interpretation memory: inbox_provider "flow_inbox_memory_ops a" memory_inv for a
  by (unfold_locales; unfold memory_table option.sel flow_inbox_memory_claim_def
      flow_inbox_memory_claim_ex_def; (rule refl option.distinct | (rule memory_laws; assumption)))

end
