(* ===== verification/Flow_Inbox_Spec.thy ===== *)
theory Flow_Inbox_Spec
  imports Flow_Inbox_Host
begin

text \<open>
  What the memory provider guarantees to its callers over whole runs: bounds on what it holds,
  settlement at most once, replays of an admission, the order of claims, the refinement of the
  abstract inbox (a map from record ids to content and life cycle), and what the host's entry
  points return over it.
\<close>

section \<open>How a step changes the records\<close>

text \<open>
  Every record held after a step was held before it, with the same id and content, or is the
  published copy of a flight; a claim that was not there before carries the next claim token.
\<close>

definition record_origin :: "flow_inbox_memory \<Rightarrow> flight list \<Rightarrow> memory_record \<Rightarrow> bool" where
  "record_origin m fs r \<longleftrightarrow>
     (\<exists>j q. holds (im_records m) j q \<and> mr_record_id q = mr_record_id r \<and> mr_view q = mr_view r \<and>
        (mr_phase r = RECORD_CLAIMED \<longrightarrow>
           mr_phase q = RECORD_CLAIMED \<and> mr_claim_token q = mr_claim_token r \<or>
           mr_claim_token r = im_next_claim_token m \<and> \<not> im_claim_token_exhausted m)) \<or>
     (\<exists>f \<in> set fs. mr_record_id r = fl_record_id f \<and> mr_phase r = RECORD_PENDING)"

lemma origin_self: "holds (im_records m) i r \<Longrightarrow> record_origin m fs r"
  unfolding record_origin_def by blast

lemma origin_put:
  assumes "holds (put (im_records m) i r) j x" and "holds (im_records m) i q"
    and "mr_record_id r = mr_record_id q" and "mr_view r = mr_view q"
    and "mr_phase r = RECORD_CLAIMED \<longrightarrow>
      mr_claim_token r = im_next_claim_token m \<and> \<not> im_claim_token_exhausted m"
  shows "record_origin m fs x"
proof (cases "j = i")
  case True
  with assms(1) have "x = r" by (auto simp: holds_update)
  then show ?thesis using assms(2-) unfolding record_origin_def by auto
next
  case False
  with assms(1) show ?thesis by (auto simp: holds_update intro: origin_self)
qed

lemmas origin_put_found = origin_put [OF _ find_holds [THEN conjunct1]]

lemma origin_complete:
  "holds (im_records (fst (flow_inbox_memory_complete m rid tok))) j x \<Longrightarrow> record_origin m fs x"
  by (auto simp: flow_inbox_memory_complete_def put_record_def split: option.splits if_splits)
    (erule origin_self | erule (1) origin_put_found; simp)+

lemma origin_fail:
  "holds (im_records (fst (flow_inbox_memory_fail m rid tok st))) j x \<Longrightarrow> record_origin m fs x"
  by (auto simp: flow_inbox_memory_fail_def put_record_def split: option.splits if_splits)
    (erule origin_self | erule (1) origin_put_found; simp)+

lemma origin_retry:
  "holds (im_records (fst (flow_inbox_memory_retry m rid))) j x \<Longrightarrow> record_origin m fs x"
  by (auto simp: flow_inbox_memory_retry_def put_record_def split: option.splits if_splits)
    (erule origin_self | erule (1) origin_put_found; simp)+

lemma origin_discard:
  "holds (im_records (fst (flow_inbox_memory_discard m rid))) j x \<Longrightarrow> record_origin m fs x"
  by (auto simp: flow_inbox_memory_discard_def put_record_def split: option.splits if_splits)
    (erule origin_self | erule (1) origin_put_found; simp)+

lemma origin_forget:
  "holds (im_records (fst (flow_inbox_memory_forget m rid))) j x \<Longrightarrow> record_origin m fs x"
  by (auto simp: flow_inbox_memory_forget_def holds_update split: option.splits if_splits
      intro: origin_self)

lemma origin_close:
  "holds (im_records (fst (flow_inbox_memory_close m))) j x \<Longrightarrow> record_origin m fs x"
  by (auto simp: flow_inbox_memory_close_def split: if_splits intro: origin_self)

lemma origin_claim:
  "holds (im_records (fst (flow_inbox_memory_claim_ex m q c))) j x \<Longrightarrow> record_origin m fs x"
  by (auto simp: flow_inbox_memory_claim_ex_def flow_inbox_memory_claim_select_def put_record_def Let_def
      split: option.splits if_splits dest!: least_record_Some(1))
    (erule origin_self | erule (1) origin_put; simp)+

lemma origin_release:
  "holds (im_records (flow_inbox_memory_release_reservation m i n)) j x \<longleftrightarrow> holds (im_records m) j x"
  by (simp add: flow_inbox_memory_release_reservation_def holds_mark)

lemma origin_commit:
  assumes f: "f \<in> set fs"
    and copy: "flow_inbox_memory_record_copy True (fl_source f) (fl_bytes f) = Some rec"
    and h: "holds (im_records (fst (admit_commit m (fl_source f) (fl_slot f) (fl_bytes f)
        (rec\<lparr>mr_record_id := fl_record_id f\<rparr>)))) j x"
  shows "record_origin m fs x"
proof -
  have "holds (im_records m) j x \<or> x = rec\<lparr>mr_record_id := fl_record_id f\<rparr>"
    using h by (auto simp: admit_commit_def put_record_def origin_release holds_mark holds_put
        split: option.splits if_splits)
  then show ?thesis
    using f record_copy_fields(2) [OF copy] by (auto simp: record_origin_def intro: origin_self)
qed

lemma step_origin:
  assumes "inbox_step (m, fs) (m', fs')" and inv: "inbox_inv m fs" and "holds (im_records m') j x"
  shows "record_origin m fs x"
  using assms(1)
proof cases
  case (reserve src i n rid)
  with assms(3) admit_reserve_reserved(10) [OF reserve(4)] show ?thesis
    by (auto simp: reserved_state_def holds_mark intro: origin_self)
next
  case (refuse src rc rid)
  have "im_next_record_id m \<noteq> 0" using inv by (simp add: inbox_inv_def ids_ok_def)
  with refuse admit_reserve_done assms(3) show ?thesis by (blast intro: origin_self)
next
  case (commit f rec)
  with assms(3) show ?thesis by (blast intro: origin_commit)
next
  case (abort f)
  with assms(3) show ?thesis by (auto simp: admit_abort_def origin_release intro: origin_self)
qed (use assms(3) in \<open>auto intro: origin_claim origin_complete origin_fail origin_retry
  origin_discard origin_forget origin_close\<close>)

text \<open>Ids and tokens that were issued stay issued, and a flight has a fresh or an old id.\<close>

lemma id_frames:
  "im_next_record_id (fst (flow_inbox_memory_complete m rid tok)) = im_next_record_id m"
  "im_record_id_exhausted (fst (flow_inbox_memory_complete m rid tok)) = im_record_id_exhausted m"
  "im_next_record_id (fst (flow_inbox_memory_fail m rid tok st)) = im_next_record_id m"
  "im_record_id_exhausted (fst (flow_inbox_memory_fail m rid tok st)) = im_record_id_exhausted m"
  "im_next_record_id (fst (flow_inbox_memory_retry m rid)) = im_next_record_id m"
  "im_record_id_exhausted (fst (flow_inbox_memory_retry m rid)) = im_record_id_exhausted m"
  "im_next_record_id (fst (flow_inbox_memory_discard m rid)) = im_next_record_id m"
  "im_record_id_exhausted (fst (flow_inbox_memory_discard m rid)) = im_record_id_exhausted m"
  "im_next_record_id (fst (flow_inbox_memory_forget m rid)) = im_next_record_id m"
  "im_record_id_exhausted (fst (flow_inbox_memory_forget m rid)) = im_record_id_exhausted m"
  "im_next_record_id (fst (flow_inbox_memory_close m)) = im_next_record_id m"
  "im_record_id_exhausted (fst (flow_inbox_memory_close m)) = im_record_id_exhausted m"
  "im_next_record_id (fst (flow_inbox_memory_claim_ex m q c)) = im_next_record_id m"
  "im_record_id_exhausted (fst (flow_inbox_memory_claim_ex m q c)) = im_record_id_exhausted m"
  "im_next_record_id (fst (admit_commit m src i n rec)) = im_next_record_id m"
  "im_record_id_exhausted (fst (admit_commit m src i n rec)) = im_record_id_exhausted m"
  by (simp_all add: flow_inbox_memory_complete_def flow_inbox_memory_fail_def
      flow_inbox_memory_retry_def flow_inbox_memory_discard_def flow_inbox_memory_forget_def
      flow_inbox_memory_close_def flow_inbox_memory_claim_ex_def flow_inbox_memory_claim_select_def
      admit_commit_def flow_inbox_memory_release_reservation_def put_record_def Let_def
      split: option.split)

lemma token_frames:
  "im_next_claim_token (fst (flow_inbox_memory_complete m rid tok)) = im_next_claim_token m"
  "im_claim_token_exhausted (fst (flow_inbox_memory_complete m rid tok)) = im_claim_token_exhausted m"
  "im_next_claim_token (fst (flow_inbox_memory_fail m rid tok st)) = im_next_claim_token m"
  "im_claim_token_exhausted (fst (flow_inbox_memory_fail m rid tok st)) = im_claim_token_exhausted m"
  "im_next_claim_token (fst (flow_inbox_memory_retry m rid)) = im_next_claim_token m"
  "im_claim_token_exhausted (fst (flow_inbox_memory_retry m rid)) = im_claim_token_exhausted m"
  "im_next_claim_token (fst (flow_inbox_memory_discard m rid)) = im_next_claim_token m"
  "im_claim_token_exhausted (fst (flow_inbox_memory_discard m rid)) = im_claim_token_exhausted m"
  "im_next_claim_token (fst (flow_inbox_memory_forget m rid)) = im_next_claim_token m"
  "im_claim_token_exhausted (fst (flow_inbox_memory_forget m rid)) = im_claim_token_exhausted m"
  "im_next_claim_token (fst (flow_inbox_memory_close m)) = im_next_claim_token m"
  "im_claim_token_exhausted (fst (flow_inbox_memory_close m)) = im_claim_token_exhausted m"
  "im_next_claim_token (fst (admit_commit m src i n rec)) = im_next_claim_token m"
  "im_claim_token_exhausted (fst (admit_commit m src i n rec)) = im_claim_token_exhausted m"
  by (simp_all add: flow_inbox_memory_complete_def flow_inbox_memory_fail_def
      flow_inbox_memory_retry_def flow_inbox_memory_discard_def flow_inbox_memory_forget_def
      flow_inbox_memory_close_def admit_commit_def flow_inbox_memory_release_reservation_def
      put_record_def Let_def split: option.split)

lemma claim_tokens:
  "fst (flow_inbox_memory_claim_ex m q c) = m \<or>
   \<not> im_claim_token_exhausted m \<and>
   im_next_claim_token (fst (flow_inbox_memory_claim_ex m q c)) =
     (if im_next_claim_token m = UINT64_MAX then im_next_claim_token m else im_next_claim_token m + 1) \<and>
   im_claim_token_exhausted (fst (flow_inbox_memory_claim_ex m q c)) =
     (im_claim_token_exhausted m \<or> im_next_claim_token m = UINT64_MAX)"
  by (simp add: flow_inbox_memory_claim_ex_def flow_inbox_memory_claim_select_def put_record_def Let_def
      split: option.split)

lemma step_ids:
  assumes "inbox_step (m, fs) (m', fs')" and inv: "inbox_inv m fs"
    and x: "id_issued (im_next_record_id m) (im_record_id_exhausted m) x"
  shows "id_issued (im_next_record_id m') (im_record_id_exhausted m') x"
  using assms(1)
proof cases
  case (reserve src i n rid)
  have "im_next_record_id m \<noteq> 0" using inv by (simp add: inbox_inv_def ids_ok_def)
  note next' = id_issued_next(2) [OF this admit_reserve_reserved(5) [OF reserve(4)] x]
  then show ?thesis
    using admit_reserve_reserved(10) [OF reserve(4)] by (simp add: reserved_state_def)
next
  case (refuse src rc rid)
  have "im_next_record_id m \<noteq> 0" using inv by (simp add: inbox_inv_def ids_ok_def)
  with refuse admit_reserve_done x show ?thesis by blast
qed (use x in \<open>simp_all add: id_frames admit_abort_def flow_inbox_memory_release_reservation_def\<close>)

lemma step_tokens:
  assumes "inbox_step (m, fs) (m', fs')" and inv: "inbox_inv m fs"
    and x: "id_issued (im_next_claim_token m) (im_claim_token_exhausted m) x"
  shows "id_issued (im_next_claim_token m') (im_claim_token_exhausted m') x"
  using assms(1)
proof cases
  case (reserve src i n rid)
  then show ?thesis
    using admit_reserve_reserved(10) [OF reserve(4)] x by (simp add: reserved_state_def)
next
  case (refuse src rc rid)
  have "im_next_record_id m \<noteq> 0" using inv by (simp add: inbox_inv_def ids_ok_def)
  with refuse admit_reserve_done x show ?thesis by blast
next
  case (claim q c)
  have "im_next_claim_token m \<noteq> 0" using inv by (simp add: inbox_inv_def tokens_ok_def)
  note next' = id_issued_next(2) [OF this _ x]
  from claim_tokens [of m q c] next' x claim show ?thesis by auto
qed (use x in \<open>simp_all add: token_frames admit_abort_def flow_inbox_memory_release_reservation_def\<close>)

lemma step_flights:
  assumes "inbox_step (m, fs) (m', fs')" and "f \<in> set fs'"
  shows "f \<in> set fs \<or> (fl_record_id f = im_next_record_id m \<and> \<not> im_record_id_exhausted m)"
  using assms(1)
proof cases
  case (reserve src i n rid)
  with assms(2) admit_reserve_reserved(5,9) [OF reserve(4)] show ?thesis by auto
qed (use assms(2) set_remove1_subset in \<open>auto\<close>)

section \<open>What lasts\<close>

text \<open>An issued record id keeps its content for as long as its record is held.\<close>

definition id_content :: "u64 \<Rightarrow> inbox_record \<Rightarrow> inbox_state \<Rightarrow> bool" where
  "id_content x v s \<longleftrightarrow>
     (case s of (m, fs) \<Rightarrow>
        inbox_inv m fs \<and> id_issued (im_next_record_id m) (im_record_id_exhausted m) x \<and>
        (\<forall>f \<in> set fs. fl_record_id f \<noteq> x) \<and>
        (\<forall>i r. holds (im_records m) i r \<and> mr_record_id r = x \<longrightarrow> mr_view r = v))"

lemma id_content_step:
  assumes step: "inbox_step s s'" and ok: "id_content x v s"
  shows "id_content x v s'"
proof -
  obtain m fs m' fs' where s: "s = (m, fs)" "s' = (m', fs')" by (metis surj_pair)
  note st = step [unfolded s]
  have inv: "inbox_inv m fs" and iss: "id_issued (im_next_record_id m) (im_record_id_exhausted m) x"
    and fl: "\<forall>f \<in> set fs. fl_record_id f \<noteq> x"
    and v: "\<forall>i r. holds (im_records m) i r \<and> mr_record_id r = x \<longrightarrow> mr_view r = v"
    using ok by (auto simp: id_content_def s)
  have "im_next_record_id m \<noteq> 0" using inv by (simp add: inbox_inv_def ids_ok_def)
  note new = id_issued_next(4) [OF this _ iss]
  have "fl_record_id f \<noteq> x" if "f \<in> set fs'" for f
    using step_flights [OF st that] fl new by auto
  moreover have "mr_view r = v" if "holds (im_records m') i r" "mr_record_id r = x" for i r
    using step_origin [OF st inv that(1)] fl v that(2) unfolding record_origin_def by metis
  ultimately show ?thesis
    using inbox_step_inv [OF st inv] step_ids [OF st inv iss] by (auto simp: id_content_def s)
qed

lemma id_content_steps: "inbox_step\<^sup>*\<^sup>* s s' \<Longrightarrow> id_content x v s \<Longrightarrow> id_content x v s'"
  by (induction rule: rtranclp_induct) (auto intro: id_content_step)

lemma id_content_held:
  assumes inv: "inbox_inv m fs" and h: "holds (im_records m) i r"
  shows "id_content (mr_record_id r) (mr_view r) (m, fs)"
proof -
  have ids: "ids_ok (im_records m) fs (im_next_record_id m) (im_record_id_exhausted m)"
    using inv by (simp add: inbox_inv_def)
  have "mr_view q = mr_view r" if "holds (im_records m) j q" "mr_record_id q = mr_record_id r" for j q
    using ids that h holds_fun unfolding ids_ok_def by metis
  moreover have "id_issued (im_next_record_id m) (im_record_id_exhausted m) (mr_record_id r)"
    "\<forall>f \<in> set fs. fl_record_id f \<noteq> mr_record_id r"
    using ids h unfolding ids_ok_def by metis+
  ultimately show ?thesis using inv by (auto simp: id_content_def)
qed

text \<open>A claim token that no record holds is never held again.\<close>

definition token_spent :: "u64 \<Rightarrow> inbox_state \<Rightarrow> bool" where
  "token_spent t s \<longleftrightarrow>
     (case s of (m, fs) \<Rightarrow>
        inbox_inv m fs \<and> id_issued (im_next_claim_token m) (im_claim_token_exhausted m) t \<and>
        (\<forall>i r. holds (im_records m) i r \<and> mr_phase r = RECORD_CLAIMED \<longrightarrow> mr_claim_token r \<noteq> t))"

lemma token_spent_step:
  assumes step: "inbox_step s s'" and ok: "token_spent t s"
  shows "token_spent t s'"
proof -
  obtain m fs m' fs' where s: "s = (m, fs)" "s' = (m', fs')" by (metis surj_pair)
  note st = step [unfolded s]
  have inv: "inbox_inv m fs" and iss: "id_issued (im_next_claim_token m) (im_claim_token_exhausted m) t"
    and v: "\<forall>i r. holds (im_records m) i r \<and> mr_phase r = RECORD_CLAIMED \<longrightarrow> mr_claim_token r \<noteq> t"
    using ok by (auto simp: token_spent_def s)
  have "im_next_claim_token m \<noteq> 0" using inv by (simp add: inbox_inv_def tokens_ok_def)
  note new = id_issued_next(4) [OF this _ iss]
  have "mr_claim_token r \<noteq> t" if "holds (im_records m') i r" "mr_phase r = RECORD_CLAIMED" for i r
    using step_origin [OF st inv that(1)] v that(2) new unfolding record_origin_def by force
  then show ?thesis
    using inbox_step_inv [OF st inv] step_tokens [OF st inv iss] by (auto simp: token_spent_def s)
qed

lemma token_spent_steps: "inbox_step\<^sup>*\<^sup>* s s' \<Longrightarrow> token_spent t s \<Longrightarrow> token_spent t s'"
  by (induction rule: rtranclp_induct) (auto intro: token_spent_step)

lemma token_spent_stale:
  assumes "token_spent t (m, fs)"
  shows "flow_inbox_memory_complete m rid t = (m, SALTS_EALREADY)"
    and "flow_inbox_memory_fail m rid t st = (m, SALTS_EALREADY)"
  using assms by (auto simp: token_spent_def flow_inbox_memory_complete_def flow_inbox_memory_fail_def
      split: option.splits dest: find_holds)

section \<open>The abstract inbox\<close>

text \<open>
  What the provider promises, without slots, counters or storage: a finite map from record ids
  to the record's content and its place in the life cycle.
\<close>

datatype lifecycle = Pending | Claimed u64 | Failed status | Completed | Discarded

type_synonym abstract_inbox = "u64 \<rightharpoonup> inbox_record \<times> lifecycle"

definition lifecycle_of :: "memory_record \<Rightarrow> lifecycle" where
  "lifecycle_of r =
     (case mr_phase r of
        RECORD_PENDING \<Rightarrow> Pending
      | RECORD_CLAIMED \<Rightarrow> Claimed (mr_claim_token r)
      | RECORD_FAILED \<Rightarrow> Failed (mr_failure_status r)
      | RECORD_TOMBSTONE \<Rightarrow>
          (if mr_terminal_kind r = TERMINAL_DISCARDED then Discarded else Completed))"

definition inbox_abs :: "flow_inbox_memory \<Rightarrow> abstract_inbox" where
  "inbox_abs m rid =
     map_option (\<lambda>(i, r). (mr_view r, lifecycle_of r)) (flow_inbox_memory_find m rid)"

datatype inbox_request =
    ReqComplete u64 u64 | ReqFail u64 u64 status | ReqRetry u64 | ReqDiscard u64 | ReqForget u64

fun spec_request :: "abstract_inbox \<Rightarrow> inbox_request \<Rightarrow> abstract_inbox \<times> status" where
  "spec_request s (ReqComplete rid tok) =
     (case s rid of
        Some (v, Claimed t) \<Rightarrow>
          if t = tok then (s(rid \<mapsto> (v, Completed)), SALTS_OK) else (s, SALTS_EALREADY)
      | _ \<Rightarrow> (s, SALTS_EALREADY))"
| "spec_request s (ReqFail rid tok st) =
     (case s rid of
        Some (v, Claimed t) \<Rightarrow>
          if t = tok then (s(rid \<mapsto> (v, Failed st)), SALTS_OK) else (s, SALTS_EALREADY)
      | _ \<Rightarrow> (s, SALTS_EALREADY))"
| "spec_request s (ReqRetry rid) =
     (case s rid of
        Some (v, Failed st) \<Rightarrow> (s(rid \<mapsto> (v, Pending)), SALTS_OK)
      | Some _ \<Rightarrow> (s, SALTS_EBUSY)
      | None \<Rightarrow> (s, SALTS_ENOENT))"
| "spec_request s (ReqDiscard rid) =
     (case s rid of
        Some (v, Failed st) \<Rightarrow> (s(rid \<mapsto> (v, Discarded)), SALTS_OK)
      | Some _ \<Rightarrow> (s, SALTS_EBUSY)
      | None \<Rightarrow> (s, SALTS_ENOENT))"
| "spec_request s (ReqForget rid) =
     (case s rid of
        Some (v, l) \<Rightarrow>
          if l = Completed \<or> l = Discarded then (s(rid := None), SALTS_OK) else (s, SALTS_EBUSY)
      | None \<Rightarrow> (s, SALTS_ENOENT))"

fun run_request :: "flow_inbox_memory \<Rightarrow> inbox_request \<Rightarrow> flow_inbox_memory \<times> status" where
  "run_request m (ReqComplete rid tok) = flow_inbox_memory_complete m rid tok"
| "run_request m (ReqFail rid tok st) = flow_inbox_memory_fail m rid tok st"
| "run_request m (ReqRetry rid) = flow_inbox_memory_retry m rid"
| "run_request m (ReqDiscard rid) = flow_inbox_memory_discard m rid"
| "run_request m (ReqForget rid) = flow_inbox_memory_forget m rid"

text \<open>The event counter a request advances is exhausted.\<close>

fun request_exhausted :: "flow_inbox_memory \<Rightarrow> inbox_request \<Rightarrow> bool" where
  "request_exhausted m (ReqComplete rid tok) \<longleftrightarrow> im_completed m = UINT64_MAX"
| "request_exhausted m (ReqFail rid tok st) \<longleftrightarrow> im_failed m = UINT64_MAX"
| "request_exhausted m (ReqRetry rid) \<longleftrightarrow> im_retried m = UINT64_MAX"
| "request_exhausted m (ReqDiscard rid) \<longleftrightarrow> im_discarded m = UINT64_MAX"
| "request_exhausted m (ReqForget rid) \<longleftrightarrow> False"

lemma find_iff:
  assumes "ids_ok (im_records m) fs nxt e"
  shows "flow_inbox_memory_find m rid = Some (i, r) \<longleftrightarrow>
    holds (im_records m) i r \<and> mr_record_id r = rid"
proof
  assume h: "holds (im_records m) i r \<and> mr_record_id r = rid"
  then have "flow_inbox_memory_find m rid \<noteq> None"
    by (auto simp: flow_inbox_memory_find_def holds_def slot_holds_def first_index_None_iff
        split: option.splits)
  then obtain j q where f: "flow_inbox_memory_find m rid = Some (j, q)" by auto
  from find_holds [OF f] h assms have "i = j" unfolding ids_ok_def by metis
  with find_holds [OF f] h f show "flow_inbox_memory_find m rid = Some (i, r)"
    by (auto dest: holds_fun)
qed (simp add: find_holds)

lemma abs_iff:
  assumes "ids_ok (im_records m) fs nxt e"
  shows "inbox_abs m rid = Some y \<longleftrightarrow>
    (\<exists>i r. holds (im_records m) i r \<and> mr_record_id r = rid \<and> y = (mr_view r, lifecycle_of r))"
  using find_iff [OF assms] by (auto simp: inbox_abs_def)

lemma abs_update:
  assumes "ids_ok (im_records m) fs nxt e" and "ids_ok (im_records m') fs' nxt' e'"
    and "im_records m' = (im_records m)[i := s]" and i: "i < length (im_records m)"
    and s: "sl_record s = Some r"
    and old: "\<And>q. sl_record (im_records m ! i) = Some q \<Longrightarrow> mr_record_id q = mr_record_id r"
  shows "inbox_abs m' = (inbox_abs m)(mr_record_id r \<mapsto> (mr_view r, lifecycle_of r))"
proof
  fix rid
  have r: "inbox_abs m' (mr_record_id r) = Some (mr_view r, lifecycle_of r)"
    unfolding abs_iff [OF assms(2)] assms(3) using i s by (auto simp: holds_update)
  have same: "holds ((im_records m)[i := s]) j x \<longleftrightarrow> holds (im_records m) j x"
    if "mr_record_id x \<noteq> mr_record_id r" for j x
    using that i s old [of x] by (cases "j = i") (auto simp: holds_update holds_def)
  have other: "inbox_abs m' rid = Some y \<longleftrightarrow> inbox_abs m rid = Some y" if "rid \<noteq> mr_record_id r" for y
    unfolding abs_iff [OF assms(1)] abs_iff [OF assms(2)] assms(3) using that same by blast
  show "inbox_abs m' rid = ((inbox_abs m)(mr_record_id r \<mapsto> (mr_view r, lifecycle_of r))) rid"
  proof (cases "rid = mr_record_id r")
    case False
    then show ?thesis using other [OF False] by (cases "inbox_abs m rid"; cases "inbox_abs m' rid") auto
  qed (simp add: r)
qed

lemma abs_put:
  assumes inv: "inbox_inv m fs" and inv': "inbox_inv m' fs'"
    and f: "flow_inbox_memory_find m rid = Some (i, q)" and id: "mr_record_id r = rid"
    and m': "im_records m' = put (im_records m) i r"
  shows "inbox_abs m' = (inbox_abs m)(rid \<mapsto> (mr_view r, lifecycle_of r))"
proof -
  have h: "holds (im_records m) i q" "mr_record_id q = rid" using find_holds [OF f] by auto
  show ?thesis
    unfolding id [symmetric]
    by (rule abs_update [OF _ _ m']) (use inv inv' h id in \<open>auto simp: inbox_inv_def holds_def\<close>)
qed

lemma abs_clear:
  assumes inv: "inbox_inv m fs" and inv': "inbox_inv m' fs'"
    and f: "flow_inbox_memory_find m rid = Some (i, q)"
    and m': "im_records m' = (im_records m)[i := (im_records m ! i)\<lparr>sl_record := None\<rparr>]"
  shows "inbox_abs m' = (inbox_abs m)(rid := None)"
proof
  fix x
  have ids: "ids_ok (im_records m) fs (im_next_record_id m) (im_record_id_exhausted m)"
    "ids_ok (im_records m') fs' (im_next_record_id m') (im_record_id_exhausted m')"
    using inv inv' by (auto simp: inbox_inv_def)
  have h: "holds (im_records m) i q" "mr_record_id q = rid" using find_holds [OF f] by auto
  have eq: "inbox_abs m' x = Some y \<longleftrightarrow> x \<noteq> rid \<and> inbox_abs m x = Some y" for y
    unfolding abs_iff [OF ids(1)] abs_iff [OF ids(2)] m'
    using h ids(1) by (auto simp: holds_update ids_ok_def dest: holds_fun) (metis holds_fun)
  show "inbox_abs m' x = ((inbox_abs m)(rid := None)) x"
    using eq by (cases "inbox_abs m x"; cases "inbox_abs m' x") auto
qed

lemma lifecycle_cases:
  "lifecycle_of r = Claimed t \<longleftrightarrow> mr_phase r = RECORD_CLAIMED \<and> mr_claim_token r = t"
  "lifecycle_of r = Failed st \<longleftrightarrow> mr_phase r = RECORD_FAILED \<and> mr_failure_status r = st"
  "lifecycle_of r = Pending \<longleftrightarrow> mr_phase r = RECORD_PENDING"
  "lifecycle_of r = Completed \<or> lifecycle_of r = Discarded \<longleftrightarrow> mr_phase r = RECORD_TOMBSTONE"
  by (auto simp: lifecycle_of_def split: record_phase.splits)

lemma run_request_inv:
  assumes "inbox_inv m fs" and "\<And>rid tok. req \<noteq> ReqFail rid tok SALTS_OK"
  shows "inbox_inv (fst (run_request m req)) fs"
  using assms
  by (cases req) (auto intro: complete_inv fail_inv retry_inv discard_inv forget_inv)

lemmas request_defs = flow_inbox_memory_complete_def flow_inbox_memory_fail_def
  flow_inbox_memory_retry_def flow_inbox_memory_discard_def flow_inbox_memory_forget_def

text \<open>A request that the abstract inbox grants is granted, unless its counter is exhausted; every
  other request is answered as the abstract inbox answers it and changes nothing.\<close>

definition request_outcome ::
    "flow_inbox_memory \<Rightarrow> inbox_request \<Rightarrow> flow_inbox_memory \<Rightarrow> status \<Rightarrow> bool" where
  "request_outcome m req m' rc \<longleftrightarrow>
     (if request_exhausted m req \<and> snd (spec_request (inbox_abs m) req) = SALTS_OK
      then rc = SALTS_ERANGE else (inbox_abs m', rc) = spec_request (inbox_abs m) req) \<and>
     (rc \<noteq> SALTS_OK \<longrightarrow> m' = m)"

lemma absent_outcome:
  assumes "flow_inbox_memory_find m rid = None" and "run_request m req = (m', rc)"
    and "req \<in> {ReqComplete rid t, ReqFail rid t st, ReqRetry rid, ReqDiscard rid, ReqForget rid}"
  shows "request_outcome m req m' rc"
proof -
  have "inbox_abs m rid = None" using assms(1) by (simp add: inbox_abs_def)
  then show ?thesis using assms by (auto simp: request_outcome_def request_defs)
qed

lemma request_refines:
  assumes inv: "inbox_inv m fs" and req: "\<And>rid tok. req \<noteq> ReqFail rid tok SALTS_OK"
    and run: "run_request m req = (m', rc)"
  shows "request_outcome m req m' rc"
proof -
  have inv': "inbox_inv m' fs" using run_request_inv [OF inv req] run by simp
  obtain rid t st where shape:
    "req \<in> {ReqComplete rid t, ReqFail rid t st, ReqRetry rid, ReqDiscard rid, ReqForget rid}"
    by (cases req) auto
  show ?thesis
  proof (cases "flow_inbox_memory_find m rid")
    case None
    then show ?thesis using absent_outcome run shape by blast
  next
    case (Some iq)
    then obtain i q where f: "flow_inbox_memory_find m rid = Some (i, q)" by (cases iq) auto
    have a: "inbox_abs m rid = Some (mr_view q, lifecycle_of q)" by (simp add: inbox_abs_def f)
    have id: "mr_record_id q = rid" using find_holds [OF f] by simp
    have nres: "\<not> sl_reserved (im_records m ! i)"
      using find_holds [OF f] inv by (auto simp: inbox_inv_def slots_ok_def holds_def)
    note put = abs_put [OF inv inv' f] and clear = abs_clear [OF inv inv' f]
    note simps = request_outcome_def request_defs put_record_def lifecycle_of_def f a
    consider "req = ReqComplete rid t" | "req = ReqFail rid t st" | "req = ReqRetry rid"
      | "req = ReqDiscard rid" | "req = ReqForget rid" using shape by auto
    then show ?thesis
    proof cases
      case 1
      with run id put [of "q\<lparr>mr_phase := RECORD_TOMBSTONE, mr_claim_token := 0,
          mr_terminal_kind := TERMINAL_COMPLETED\<rparr>"]
      show ?thesis by (auto simp: simps split: if_splits record_phase.splits)
    next
      case 2
      with run id put [of "q\<lparr>mr_phase := RECORD_FAILED, mr_failure_status := st,
          mr_failure_kind := FAILURE_PROCESSING\<rparr>"]
      show ?thesis by (auto simp: simps split: if_splits record_phase.splits)
    next
      case 3
      with run id put [of "q\<lparr>mr_phase := RECORD_PENDING, mr_failure_status := SALTS_OK,
          mr_failure_kind := FAILURE_PROCESSING\<rparr>"]
      show ?thesis by (auto simp: simps split: if_splits record_phase.splits)
    next
      case 4
      with run id put [of "q\<lparr>mr_phase := RECORD_TOMBSTONE, mr_terminal_kind := TERMINAL_DISCARDED\<rparr>"]
      show ?thesis by (auto simp: simps split: if_splits record_phase.splits)
    next
      case 5
      with run clear nres show ?thesis by (auto simp: simps split: if_splits record_phase.splits)
    qed
  qed
qed

section \<open>Admission\<close>

lemma record_equal_sym: "flow_inbox_record_equal l r \<Longrightarrow> flow_inbox_record_equal r l"
  by (simp add: flow_inbox_record_equal_def flow_inbox_view_equal_def) metis

lemma record_equal_trans:
  "flow_inbox_record_equal a b \<Longrightarrow> flow_inbox_record_equal b c \<Longrightarrow> flow_inbox_record_equal a c"
  by (simp add: flow_inbox_record_equal_def flow_inbox_view_equal_def) metis

lemma record_equal_admission: "flow_inbox_record_equal (mr_view r) src \<Longrightarrow> same_admission src r"
  by (simp add: flow_inbox_record_equal_def same_admission_def)

lemma commit_holds:
  assumes "admit_commit m src i n rec = (m', rid, SALTS_OK)" and "flow_inbox_record_equal (mr_view rec) src"
  shows "\<exists>j r. holds (im_records m') j r \<and> rid = Some (mr_record_id r) \<and>
    flow_inbox_record_equal (mr_view r) src"
proof (cases "flow_inbox_memory_find_admission m src")
  case None
  then have "holds (im_records m') i rec \<and> rid = Some (mr_record_id rec)"
    using assms(1) by (auto simp: admit_commit_def origin_release put_record_def holds_put split: if_splits)
  with assms(2) show ?thesis by blast
next
  case (Some e)
  obtain j where "holds (im_records m) j e" using find_admission_holds(1) [OF Some] by blast
  moreover have "flow_inbox_record_equal (mr_view e) src" "rid = Some (mr_record_id e)"
    "m' = flow_inbox_memory_release_reservation m i n"
    using assms(1) Some by (auto simp: admit_commit_def split: if_splits)
  ultimately show ?thesis using origin_release by blast
qed

text \<open>A successful admission leaves a record with the receipt's id and the source's content.\<close>

lemma admit_holds:
  assumes inv: "inbox_inv m fs" and valid: "flow_inbox_record_valid (Some src) = SALTS_OK"
    and wf: "record_wf src" and adm: "flow_inbox_memory_admit a m src INBOX_RECEIPT_INIT = (m1, rp, SALTS_OK)"
  shows "\<exists>i r. holds (im_records m1) i r \<and> mr_record_id r = rp_record_id rp \<and>
    flow_inbox_record_equal (mr_view r) src"
proof -
  have nz: "im_next_record_id m \<noteq> 0" using inv by (simp add: inbox_inv_def ids_ok_def)
  obtain m0 d where d: "admit_reserve m src = (m0, d)" by (cases "admit_reserve m src")
  show ?thesis
  proof (cases d)
    case (AdmitDone rc rid)
    then have rp: "rc = SALTS_OK" "rp = receipt_with INBOX_RECEIPT_INIT rid" "m1 = m0"
      using d adm by (simp_all add: flow_inbox_memory_admit_def)
    then obtain e where e: "flow_inbox_memory_find_admission m src = Some e" "rid = Some (mr_record_id e)"
      "flow_inbox_record_equal (mr_view e) src"
      using admit_reserve_replayed [of m src m0 rid] d AdmitDone nz by blast
    have "m0 = m" using admit_reserve_done d AdmitDone nz by blast
    with e rp find_admission_holds(1) [OF e(1)] show ?thesis by (auto simp: receipt_with_def)
  next
    case (AdmitReserved i n rid)
    obtain rec where rec: "flow_inbox_memory_record_copy a src n = Some rec"
      using adm d AdmitReserved by (cases "flow_inbox_memory_record_copy a src n")
        (simp_all add: flow_inbox_memory_admit_def)
    then have "flow_inbox_memory_record_copy True src n = Some rec"
      by (cases a) (simp_all add: flow_inbox_memory_record_copy_def)
    from record_copy_view [OF this valid wf] copied_view_equal [OF valid]
    have eq: "flow_inbox_record_equal (mr_view (rec\<lparr>mr_record_id := rid\<rparr>)) src" by simp
    obtain m2 x rc where c: "admit_commit m0 src i n (rec\<lparr>mr_record_id := rid\<rparr>) = (m2, x, rc)"
      by (cases "admit_commit m0 src i n (rec\<lparr>mr_record_id := rid\<rparr>)")
    with adm d AdmitReserved rec have r: "rc = SALTS_OK" "rp = receipt_with INBOX_RECEIPT_INIT x" "m2 = m1"
      by (simp_all add: flow_inbox_memory_admit_def)
    from commit_holds [OF c [unfolded r(1)] eq] obtain j q where "holds (im_records m2) j q"
      "x = Some (mr_record_id q)" "flow_inbox_record_equal (mr_view q) src" by blast
    with r show ?thesis by (intro exI [of _ j] exI [of _ q]) (simp add: receipt_with_def)
  qed
qed

text \<open>An admission whose identity is held is decided by the held record alone.\<close>

lemma admit_replay:
  assumes inv: "inbox_inv m fs" and h: "holds (im_records m) i r" and same: "same_admission src r"
  shows "flow_inbox_memory_admit a m src rp =
    (if flow_inbox_record_equal (mr_view r) src
     then (m, rp\<lparr>rp_record_id := mr_record_id r\<rparr>, SALTS_OK) else (m, rp, SALTS_EPROTO))"
proof -
  have "flow_inbox_memory_find_admission m src \<noteq> None"
    using find_admission_holds(2) [OF _ h] same by blast
  then obtain e where e: "flow_inbox_memory_find_admission m src = Some e" by blast
  then obtain j where j: "holds (im_records m) j e" "same_admission src e"
    using find_admission_holds(1) by blast
  have "same_identity (mr_view e) (mr_view r)"
    using j(2) same unfolding same_identity_def same_admission_def flow_inbox_view_equal_def by metis
  then have "j = i" using inv j(1) h unfolding inbox_inv_def identity_ok_def by blast
  then have "e = r" using j(1) h holds_fun by blast
  with e show ?thesis
    by (auto simp: flow_inbox_memory_admit_def admit_reserve_def receipt_with_def split: prod.splits)
qed

section \<open>A sample run\<close>

lemma admit_steps:
  assumes valid: "flow_inbox_record_valid (Some src) = SALTS_OK" and wf: "record_wf src"
  shows "inbox_step\<^sup>*\<^sup>* (m, fs) (fst (flow_inbox_memory_admit a m src rp), fs)"
proof -
  obtain m1 d where d: "admit_reserve m src = (m1, d)" by (cases "admit_reserve m src")
  show ?thesis
  proof (cases d)
    case (AdmitDone rc rid)
    with d show ?thesis by (auto simp: flow_inbox_memory_admit_def intro: inbox_step.refuse)
  next
    case (AdmitReserved i n rid)
    let ?f = "\<lparr>fl_source = src, fl_slot = i, fl_bytes = n, fl_record_id = rid\<rparr>"
    have 1: "inbox_step (m, fs) (m1, ?f # fs)" using inbox_step.reserve [OF valid wf] d AdmitReserved by blast
    have 2: "inbox_step (m1, ?f # fs) (fst (flow_inbox_memory_admit a m src rp), fs)"
    proof (cases "flow_inbox_memory_record_copy a src n")
      case None
      with d AdmitReserved show ?thesis
        using inbox_step.abort [of ?f "?f # fs" m1] by (simp add: flow_inbox_memory_admit_def)
    next
      case (Some rec)
      then have "flow_inbox_memory_record_copy True src n = Some rec"
        by (cases a) (simp_all add: flow_inbox_memory_record_copy_def)
      moreover obtain m2 x rc where "admit_commit m1 src i n (rec\<lparr>mr_record_id := rid\<rparr>) = (m2, x, rc)"
        by (cases "admit_commit m1 src i n (rec\<lparr>mr_record_id := rid\<rparr>)")
      ultimately show ?thesis
        using inbox_step.commit [of ?f "?f # fs" rec m1] d AdmitReserved Some
        by (simp add: flow_inbox_memory_admit_def)
    qed
    from 1 2 show ?thesis by (meson rtranclp.rtrancl_refl rtranclp.rtrancl_into_rtrancl)
  qed
qed

definition sample_config :: inbox_memory_config where
  "sample_config = \<lparr>mc_size = ExactSize, mc_version = INBOX_API_VERSION, mc_max_records = 2,
     mc_max_total_bytes = 4096, mc_max_record_bytes = 1024, mc_max_claims = 1\<rparr>"

definition sample_record :: inbox_record where
  "sample_record = turbo_flow_inbox_record_init\<lparr>ir_source_id := View [1], ir_partition_key := View [2],
     ir_admission_id := View [3], ir_payload := View [4, 5], ir_content := sample_descriptor\<rparr>"

definition sample_admitted :: flow_inbox_memory where
  "sample_admitted =
     fst (flow_inbox_memory_admit True (empty_inbox_memory sample_config) sample_record INBOX_RECEIPT_INIT)"

definition sample_claimed :: flow_inbox_memory where
  "sample_claimed = fst (flow_inbox_memory_claim_ex sample_admitted (Some INBOX_CLAIM_REQUEST_INIT)
     INBOX_CLAIM_INIT)"

definition sample_completed :: flow_inbox_memory where
  "sample_completed = fst (flow_inbox_memory_complete sample_claimed 1 1)"

definition sample_failed :: flow_inbox_memory where
  "sample_failed = fst (flow_inbox_memory_fail sample_claimed 1 1 SALTS_EINVAL)"

lemma sample_config_valid: "flow_inbox_memory_config_valid (Some sample_config)"
  by code_simp

lemma sample_record_valid: "flow_inbox_record_valid (Some sample_record) = SALTS_OK"
  by code_simp

lemma sample_record_wf: "record_wf sample_record"
  by (simp add: record_wf_def sample_record_def turbo_flow_inbox_record_init_def zero_inbox_record_def)

lemma reachable_step:
  "inbox_reachable c m fs \<Longrightarrow> inbox_step\<^sup>*\<^sup>* (m, fs) (m', fs') \<Longrightarrow> inbox_reachable c m' fs'"
  unfolding inbox_reachable_def by (rule rtranclp_trans)

lemma sample_reachable:
  "inbox_reachable sample_config (empty_inbox_memory sample_config) []"
  "inbox_reachable sample_config sample_admitted []"
  "inbox_reachable sample_config sample_claimed []"
  "inbox_reachable sample_config sample_completed []"
  "inbox_reachable sample_config sample_failed []"
proof -
  show 0: "inbox_reachable sample_config (empty_inbox_memory sample_config) []"
    by (simp add: inbox_reachable_def)
  show 1: "inbox_reachable sample_config sample_admitted []"
    unfolding sample_admitted_def
    by (rule reachable_step [OF 0 admit_steps [OF sample_record_valid sample_record_wf]])
  show 2: "inbox_reachable sample_config sample_claimed []"
    unfolding sample_claimed_def
    by (rule reachable_step [OF 1]) (rule r_into_rtranclp, rule inbox_step.claim)
  show "inbox_reachable sample_config sample_completed []"
    unfolding sample_completed_def
    by (rule reachable_step [OF 2]) (rule r_into_rtranclp, rule inbox_step.complete)
  show "inbox_reachable sample_config sample_failed []"
    unfolding sample_failed_def
    by (rule reachable_step [OF 2]) (rule r_into_rtranclp, rule inbox_step.fail, simp)
qed

lemma sample_results:
  "flow_inbox_memory_admit True (empty_inbox_memory sample_config) sample_record INBOX_RECEIPT_INIT =
     (sample_admitted, INBOX_RECEIPT_INIT\<lparr>rp_record_id := 1\<rparr>, SALTS_OK)"
  "flow_inbox_memory_complete sample_claimed 1 1 = (sample_completed, SALTS_OK)"
  by code_simp+

section \<open>Properties of the memory provider\<close>

definition held_slot :: "memory_slot \<Rightarrow> bool" where
  "held_slot s \<longleftrightarrow> sl_record s \<noteq> None"

lemma count_held: "count held_slot ss = count live_slot ss + count (in_phase RECORD_TOMBSTONE) ss"
proof (induction ss)
  case (Cons s ss)
  then show ?case
    by (cases "sl_record s") (auto simp: held_slot_def live_slot_def in_phase_def slot_holds_def)
qed simp

definition stored_bytes :: "memory_slot list \<Rightarrow> nat" where
  "stored_bytes ss =
     sum_list (map (\<lambda>s. case sl_record s of None \<Rightarrow> 0 | Some r \<Rightarrow> length (mr_storage r)) ss)"

lemma stored_bytes_eq: "records_ok ss l \<Longrightarrow> stored_bytes ss = sum_list (map slot_bytes ss)"
  unfolding stored_bytes_def
  by (rule arg_cong [where f = sum_list])
    (auto simp: slot_bytes_def records_ok_def record_ok_def holds_def in_set_conv_nth split: option.split)

text \<open>C3: in every reachable state, whatever admissions are in flight, the records held and
  reserved stay within the configured bound, the bytes stored and reserved within the byte
  bound, every record within the bound for one record, and the claims within theirs.\<close>

theorem inbox_capacity:
  assumes "flow_inbox_memory_config_valid (Some c)" and "inbox_reachable c m fs"
  shows "count held_slot (im_records m) + length fs \<le> unat (mc_max_records (im_config m)) \<and>
    stored_bytes (im_records m) + flight_bytes fs \<le> unat (mc_max_total_bytes (im_config m)) \<and>
    (\<forall>i r. holds (im_records m) i r \<longrightarrow>
       length (mr_storage r) \<le> unat (mc_max_record_bytes (im_config m))) \<and>
    count (in_phase RECORD_CLAIMED) (im_records m) \<le> unat (mc_max_claims (im_config m))"
proof -
  have "inbox_inv m fs" using reachable_inv assms .
  then have c: "counters_ok m fs" and b: "bounds_ok m"
    and r: "records_ok (im_records m) (mc_max_record_bytes (im_config m))"
    by (auto simp: inbox_inv_def)
  have "length (mr_storage x) \<le> unat (mc_max_record_bytes (im_config m))"
    if "holds (im_records m) i x" for i x
    using r that unfolding records_ok_def record_ok_def word_le_nat_alt by metis
  with c b show ?thesis
    by (simp add: counters_ok_def bounds_ok_def count_held stored_bytes_eq [OF r] word_le_nat_alt)
qed

theorem inbox_capacity_witness:
  "count held_slot (im_records sample_claimed) + length ([] :: flight list)
     \<le> unat (mc_max_records (im_config sample_claimed)) \<and>
   count (in_phase RECORD_CLAIMED) (im_records sample_claimed) = 1 \<and>
   count (in_phase RECORD_CLAIMED) (im_records sample_claimed)
     \<le> unat (mc_max_claims (im_config sample_claimed))"
proof -
  have "count (in_phase RECORD_CLAIMED) (im_records sample_claimed) = 1" by code_simp
  with inbox_capacity [OF sample_config_valid sample_reachable(3)] show ?thesis by blast
qed

lemma complete_result:
  assumes "flow_inbox_memory_complete m rid tok = (m1, SALTS_OK)"
  obtains i r r' where "flow_inbox_memory_find m rid = Some (i, r)" "mr_phase r = RECORD_CLAIMED"
    "mr_claim_token r = tok" "im_records m1 = put (im_records m) i r'" "mr_phase r' \<noteq> RECORD_CLAIMED"
  using assms by (auto simp: flow_inbox_memory_complete_def put_record_def split: option.splits if_splits)

lemma fail_result:
  assumes "flow_inbox_memory_fail m rid tok st = (m1, SALTS_OK)"
  obtains i r r' where "flow_inbox_memory_find m rid = Some (i, r)" "mr_phase r = RECORD_CLAIMED"
    "mr_claim_token r = tok" "im_records m1 = put (im_records m) i r'" "mr_phase r' \<noteq> RECORD_CLAIMED"
  using assms by (auto simp: flow_inbox_memory_fail_def put_record_def split: option.splits if_splits)

lemma token_spent_put:
  assumes inv: "inbox_inv m fs" and inv1: "inbox_inv m1 fs"
    and f: "flow_inbox_memory_find m rid = Some (i, r)" "mr_phase r = RECORD_CLAIMED"
      "im_records m1 = put (im_records m) i r'" "mr_phase r' \<noteq> RECORD_CLAIMED"
      "im_next_claim_token m1 = im_next_claim_token m"
      "im_claim_token_exhausted m1 = im_claim_token_exhausted m"
  shows "token_spent (mr_claim_token r) (m1, fs)"
proof -
  have h: "holds (im_records m) i r" using find_holds [OF f(1)] by simp
  have tok: "tokens_ok (im_records m) (im_next_claim_token m) (im_claim_token_exhausted m)"
    using inv by (simp add: inbox_inv_def)
  have "mr_claim_token x \<noteq> mr_claim_token r"
    if x: "holds (im_records m1) j x" "mr_phase x = RECORD_CLAIMED" for j x
  proof -
    have "j \<noteq> i" "holds (im_records m) j x"
      using x f(3,4) by (auto simp: holds_update split: if_splits)
    with tok h x(2) f(2) show ?thesis unfolding tokens_ok_def by blast
  qed
  moreover have "id_issued (im_next_claim_token m) (im_claim_token_exhausted m) (mr_claim_token r)"
    using tok h f(2) unfolding tokens_ok_def by blast
  ultimately show ?thesis using inv1 f(5,6) by (auto simp: token_spent_def)
qed

text \<open>C1: a claim is settled at most once: after it was completed or failed, however the run
  continues and even when the record is retried and claimed again, the same token is refused
  with \<open>SALTS_EALREADY\<close> and changes nothing.\<close>

theorem inbox_settled_once:
  assumes "flow_inbox_memory_config_valid (Some c)" and "inbox_reachable c m fs" and st: "st \<noteq> SALTS_OK"
    and settle: "flow_inbox_memory_complete m rid tok = (m1, SALTS_OK) \<or>
      flow_inbox_memory_fail m rid tok st = (m1, SALTS_OK)"
    and run: "inbox_step\<^sup>*\<^sup>* (m1, fs) (m2, fs2)"
  shows "flow_inbox_memory_complete m2 rid' tok = (m2, SALTS_EALREADY) \<and>
    flow_inbox_memory_fail m2 rid' tok st' = (m2, SALTS_EALREADY)"
proof -
  have inv: "inbox_inv m fs" using reachable_inv assms(1,2) .
  have "token_spent tok (m1, fs)"
    using settle
  proof
    assume c: "flow_inbox_memory_complete m rid tok = (m1, SALTS_OK)"
    have "inbox_inv m1 fs" using complete_inv [OF inv, of rid tok] c by simp
    then show ?thesis
      using token_spent_put [OF inv] token_frames(1,2) [of m rid tok] c by (auto elim: complete_result)
  next
    assume c: "flow_inbox_memory_fail m rid tok st = (m1, SALTS_OK)"
    have "inbox_inv m1 fs" using fail_inv [OF inv st, of rid tok] c by simp
    then show ?thesis
      using token_spent_put [OF inv] token_frames(3,4) [of m rid tok st] c by (auto elim: fail_result)
  qed
  from token_spent_stale [OF token_spent_steps [OF run this]] show ?thesis by blast
qed

theorem inbox_settled_once_witness:
  "flow_inbox_memory_complete sample_claimed 1 1 = (sample_completed, SALTS_OK) \<and>
   flow_inbox_memory_complete sample_completed 1 1 = (sample_completed, SALTS_EALREADY)"
proof -
  have "SALTS_EINVAL \<noteq> SALTS_OK" by simp
  note once = inbox_settled_once [OF sample_config_valid sample_reachable(3) this
      disjI1 [OF sample_results(2)] rtranclp.rtrancl_refl]
  show ?thesis using sample_results(2) once by blast
qed

text \<open>C2: the answer to an admission outlives it: as long as its record was not forgotten, the
  same record is admitted again with the original receipt, changes nothing and needs neither
  room nor an open inbox, and a different record under the same identity is refused with
  \<open>SALTS_EPROTO\<close>.\<close>

theorem inbox_replay:
  assumes "flow_inbox_memory_config_valid (Some c)" and "inbox_reachable c m fs"
    and valid: "flow_inbox_record_valid (Some src) = SALTS_OK" and wf: "record_wf src"
    and adm: "flow_inbox_memory_admit a m src INBOX_RECEIPT_INIT = (m1, rp, SALTS_OK)"
    and run: "inbox_step\<^sup>*\<^sup>* (m1, fs) (m2, fs2)"
    and kept: "flow_inbox_memory_find m2 (rp_record_id rp) \<noteq> None"
    and ident: "flow_inbox_view_equal (ir_source_id src) (ir_source_id src')"
      "flow_inbox_view_equal (ir_admission_id src) (ir_admission_id src')"
  shows "flow_inbox_memory_admit b m2 src' INBOX_RECEIPT_INIT =
    (if flow_inbox_record_equal src src' then (m2, rp, SALTS_OK)
     else (m2, INBOX_RECEIPT_INIT, SALTS_EPROTO))"
proof -
  have inv: "inbox_inv m fs" using reachable_inv assms(1,2) .
  have inv1: "inbox_inv m1 fs" using memory_admit_inv [OF inv valid wf, of a INBOX_RECEIPT_INIT] adm by simp
  obtain i r where h: "holds (im_records m1) i r" "mr_record_id r = rp_record_id rp"
    "flow_inbox_record_equal (mr_view r) src" using admit_holds [OF inv valid wf adm] by blast
  have "id_content (rp_record_id rp) (mr_view r) (m1, fs)"
    using id_content_held [OF inv1 h(1)] h(2) by simp
  from id_content_steps [OF run this] have c: "id_content (rp_record_id rp) (mr_view r) (m2, fs2)" .
  obtain j q where q: "holds (im_records m2) j q" "mr_record_id q = rp_record_id rp"
    using kept find_holds by fastforce
  have view: "mr_view q = mr_view r" using c q by (auto simp: id_content_def)
  have same: "same_admission src' q"
    using record_equal_admission [of q src] h(3) view ident
    by (auto simp: same_admission_def flow_inbox_view_equal_def)
  have eq: "flow_inbox_record_equal (mr_view q) src' \<longleftrightarrow> flow_inbox_record_equal src src'"
    using h(3) view record_equal_trans record_equal_sym by metis
  have rp: "rp = INBOX_RECEIPT_INIT\<lparr>rp_record_id := rp_record_id rp\<rparr>"
    using memory_admit_receipt [OF inv valid wf adm] by (simp add: INBOX_RECEIPT_INIT_def)
  have "inbox_inv m2 fs2" using c by (simp add: id_content_def)
  from admit_replay [OF this q(1) same, of b INBOX_RECEIPT_INIT] eq rp q(2) show ?thesis by auto
qed

theorem inbox_replay_witness:
  "flow_inbox_memory_admit True sample_completed sample_record INBOX_RECEIPT_INIT =
     (sample_completed, INBOX_RECEIPT_INIT\<lparr>rp_record_id := 1\<rparr>, SALTS_OK)"
proof -
  have run: "inbox_step\<^sup>*\<^sup>* (sample_admitted, []) (sample_completed, [])"
    unfolding sample_completed_def sample_claimed_def
    by (rule rtranclp_trans; rule r_into_rtranclp) (rule inbox_step.claim, rule inbox_step.complete)
  have "flow_inbox_memory_find sample_completed
      (rp_record_id (INBOX_RECEIPT_INIT\<lparr>rp_record_id := 1\<rparr>)) \<noteq> None"
    "flow_inbox_view_equal (ir_source_id sample_record) (ir_source_id sample_record)"
    "flow_inbox_view_equal (ir_admission_id sample_record) (ir_admission_id sample_record)"
    "flow_inbox_record_equal sample_record sample_record"
    by code_simp+
  then show ?thesis
    using inbox_replay [OF sample_config_valid sample_reachable(1) sample_record_valid
        sample_record_wf sample_results(1) run, of sample_record True] by simp
qed

text \<open>
  What a claim does with the abstract inbox, for any set of eligible records: it takes the least
  eligible id under a token never issued before, and every refusal has its reason and changes
  nothing.
\<close>

definition claim_outcome ::
    "(inbox_record \<Rightarrow> bool) \<Rightarrow> flow_inbox_memory \<Rightarrow> flow_inbox_memory \<Rightarrow> inbox_claim \<Rightarrow> status \<Rightarrow> bool" where
  "claim_outcome elig m m' cl rc \<longleftrightarrow>
     rc = (if \<forall>rid v. inbox_abs m rid = Some (v, Pending) \<longrightarrow> \<not> elig v then SALTS_ENOENT
           else if im_in_flight_claims m \<ge> mc_max_claims (im_config m) then SALTS_ENOSPC
           else if im_claim_token_exhausted m then SALTS_ERANGE else SALTS_OK) \<and>
     (rc = SALTS_OK \<longrightarrow>
        inbox_abs m (cl_record_id cl) = Some (cl_record cl, Pending) \<and> elig (cl_record cl) \<and>
        (\<forall>rid v. inbox_abs m rid = Some (v, Pending) \<and> elig v \<longrightarrow> cl_record_id cl \<le> rid) \<and>
        \<not> id_issued (im_next_claim_token m) (im_claim_token_exhausted m) (cl_claim_token cl) \<and>
        inbox_abs m' = (inbox_abs m)(cl_record_id cl \<mapsto> (cl_record cl, Claimed (cl_claim_token cl)))) \<and>
     (rc \<noteq> SALTS_OK \<longrightarrow> m' = m \<and> cl = INBOX_CLAIM_INIT)"

lemma pending_iff:
  assumes "inbox_inv m fs"
  shows "inbox_abs m rid = Some (v, Pending) \<longleftrightarrow>
    (\<exists>i r. holds (im_records m) i r \<and> mr_record_id r = rid \<and> mr_view r = v \<and> mr_phase r = RECORD_PENDING)"
proof -
  have ids: "ids_ok (im_records m) fs (im_next_record_id m) (im_record_id_exhausted m)"
    using assms by (simp add: inbox_inv_def)
  show ?thesis unfolding abs_iff [OF ids] lifecycle_cases(3) [symmetric] prod.inject by metis
qed

lemma claimed_outcome:
  assumes inv: "inbox_inv m fs" and valid: "flow_inbox_claim_request_valid (Some q)"
    and l: "least_record (claimable q) 0 None (im_records m) = Some (i, r)"
    and claim: "flow_inbox_memory_claim_select m (Some q) INBOX_CLAIM_INIT = (m', cl, SALTS_OK)"
  shows "inbox_abs m' = (inbox_abs m)(cl_record_id cl \<mapsto> (cl_record cl, Claimed (cl_claim_token cl)))"
    and "cl_record_id cl = mr_record_id r" and "cl_record cl = mr_view r"
    and "\<not> id_issued (im_next_claim_token m) (im_claim_token_exhausted m) (cl_claim_token cl)"
proof -
  let ?r = "r\<lparr>mr_claim_token := im_next_claim_token m, mr_phase := RECORD_CLAIMED\<rparr>"
  note def = flow_inbox_memory_claim_select_def
  show cl: "cl_record_id cl = mr_record_id r" "cl_record cl = mr_view r"
    and "\<not> id_issued (im_next_claim_token m) (im_claim_token_exhausted m) (cl_claim_token cl)"
    using claim valid l by (auto simp: def Let_def id_issued_def split: if_splits)
  have m': "cl_claim_token cl = im_next_claim_token m" "im_records m' = put (im_records m) i ?r"
    using claim valid l by (auto simp: def Let_def put_record_def split: if_splits)
  have inv': "inbox_inv m' fs" using claim_select_inv [OF inv, of "Some q" INBOX_CLAIM_INIT] claim by simp
  have "flow_inbox_memory_find m (mr_record_id r) = Some (i, r)"
    using least_record_Some(1) [OF l] inv find_iff unfolding inbox_inv_def by blast
  then show "inbox_abs m' = (inbox_abs m)(cl_record_id cl \<mapsto> (cl_record cl, Claimed (cl_claim_token cl)))"
    using abs_put [OF inv inv' _ _ m'(2)] by (simp add: lifecycle_of_def cl m'(1))
qed

lemma claim_select_outcome:
  assumes inv: "inbox_inv m fs" and valid: "flow_inbox_claim_request_valid (Some q)"
    and claim: "flow_inbox_memory_claim_select m (Some q) INBOX_CLAIM_INIT = (m', cl, rc)"
  shows "claim_outcome (\<lambda>v. \<not> flow_inbox_claim_partition_excluded v q) m m' cl rc"
proof (cases "least_record (claimable q) 0 None (im_records m)")
  case None
  then have "\<forall>rid v. inbox_abs m rid = Some (v, Pending) \<longrightarrow> flow_inbox_claim_partition_excluded v q"
    unfolding pending_iff [OF inv] least_record_None claimable_def by metis
  then show ?thesis
    using claim valid None by (auto simp: claim_outcome_def flow_inbox_memory_claim_select_def)
next
  case (Some ir)
  then obtain i r where l: "least_record (claimable q) 0 None (im_records m) = Some (i, r)"
    by (cases ir) auto
  note lr = least_record_Some [OF l]
  have r: "inbox_abs m (mr_record_id r) = Some (mr_view r, Pending)"
    "\<not> flow_inbox_claim_partition_excluded (mr_view r) q"
    using lr(1,2) unfolding pending_iff [OF inv] claimable_def by auto
  have least: "mr_record_id r \<le> rid"
    if "inbox_abs m rid = Some (v, Pending)" "\<not> flow_inbox_claim_partition_excluded v q" for rid v
    using that lr(3) unfolding pending_iff [OF inv] claimable_def by metis
  have rc: "rc = (if im_in_flight_claims m \<ge> mc_max_claims (im_config m) then SALTS_ENOSPC
      else if im_claim_token_exhausted m then SALTS_ERANGE else SALTS_OK)"
    "rc \<noteq> SALTS_OK \<longrightarrow> m' = m \<and> cl = INBOX_CLAIM_INIT"
    using claim valid l by (auto simp: flow_inbox_memory_claim_select_def Let_def split: if_splits)
  have "\<not> (\<forall>rid v. inbox_abs m rid = Some (v, Pending) \<longrightarrow> \<not> \<not> flow_inbox_claim_partition_excluded v q)"
    using r by blast
  then show ?thesis
    unfolding claim_outcome_def
    using rc r least claimed_outcome [OF inv valid l] claim by simp
qed

text \<open>C5: Plain claims are first in, first out.  A claim takes the pending record with the least
  id, under a token never issued before; it is refused exactly when nothing is pending
  (\<open>SALTS_ENOENT\<close>), the claim limit is reached (\<open>SALTS_ENOSPC\<close>) or the tokens are used up
  (\<open>SALTS_ERANGE\<close>), and a refusal changes nothing.  A request with global ordering is the same.\<close>

theorem inbox_claim_fifo:
  assumes "flow_inbox_memory_config_valid (Some c)" and "inbox_reachable c m fs"
    and "flow_inbox_memory_claim m INBOX_CLAIM_INIT = (m', cl, rc)"
  shows "claim_outcome (\<lambda>v. True) m m' cl rc"
proof -
  have "flow_inbox_claim_request_valid (Some INBOX_CLAIM_REQUEST_INIT)" by code_simp
  moreover have "\<not> flow_inbox_claim_partition_excluded v INBOX_CLAIM_REQUEST_INIT" for v
    by (simp add: flow_inbox_claim_partition_excluded_def INBOX_CLAIM_REQUEST_INIT_def)
  ultimately show ?thesis
    using claim_select_outcome [OF reachable_inv [OF assms(1,2)]] assms(3)
    by (fastforce simp: flow_inbox_memory_claim_def)
qed

theorem inbox_claim_fifo_witness:
  "inbox_abs sample_admitted 1 = Some (copied_view sample_record, Pending) \<and>
   inbox_abs sample_claimed = (inbox_abs sample_admitted)(1 \<mapsto> (copied_view sample_record, Claimed 1))"
proof -
  let ?cl = "INBOX_CLAIM_INIT\<lparr>cl_record_id := 1, cl_claim_token := 1,
    cl_record := copied_view sample_record\<rparr>"
  have claim: "flow_inbox_memory_claim sample_admitted INBOX_CLAIM_INIT = (sample_claimed, ?cl, SALTS_OK)"
    by code_simp
  from inbox_claim_fifo [OF sample_config_valid sample_reachable(2) claim]
  show ?thesis by (simp add: claim_outcome_def)
qed




definition exclude_key :: "u8 list \<Rightarrow> claim_request" where
  "exclude_key k = INBOX_CLAIM_REQUEST_INIT\<lparr>cq_ordering := ORDER_PARTITION_KEY,
     cq_excluded := Partitions [View k]\<rparr>"


text \<open>The comment on \<open>turbo_flow_inbox_claim_ex\<close> promises that a record whose source id is excluded is
  not claimed.  It is: only the partition key is compared.\<close>

lemma excluded_source_claimed:
  "flow_inbox_claim_request_valid (Some (exclude_key [1])) \<and>
   ir_source_id (copied_view sample_record) = View [1] \<and>
   flow_inbox_memory_claim_ex sample_admitted (Some (exclude_key [1])) INBOX_CLAIM_INIT =
     (sample_claimed, INBOX_CLAIM_INIT\<lparr>cl_record_id := 1, cl_claim_token := 1,
        cl_record := copied_view sample_record\<rparr>, SALTS_OK)"
  by code_simp

text \<open>C4: Settlement refines the abstract inbox.  Complete, fail, retry, discard and forget answer
  and act on the provider's slots and counters exactly as on the abstract inbox; the one
  exception is a request the abstract inbox grants while the 64-bit event counter of that very
  request stands at its maximum, which is answered \<open>SALTS_ERANGE\<close>.  Whenever the answer is not
  \<open>SALTS_OK\<close> the provider is unchanged.  (A failure must carry a status other than \<open>SALTS_OK\<close>, as
  the host entry point requires.)\<close>

theorem inbox_requests_refine:
  assumes "flow_inbox_memory_config_valid (Some c)" and "inbox_reachable c m fs"
    and "\<And>rid tok. req \<noteq> ReqFail rid tok SALTS_OK"
    and "run_request m req = (m', rc)"
  shows "(if request_exhausted m req \<and> snd (spec_request (inbox_abs m) req) = SALTS_OK
      then rc = SALTS_ERANGE else (inbox_abs m', rc) = spec_request (inbox_abs m) req) \<and>
    (rc \<noteq> SALTS_OK \<longrightarrow> m' = m)"
  using request_refines [OF reachable_inv [OF assms(1,2)] assms(3,4)] unfolding request_outcome_def .

theorem inbox_requests_refine_witness:
  "(inbox_abs (fst (flow_inbox_memory_retry sample_failed 1)), SALTS_OK) =
     spec_request (inbox_abs sample_failed) (ReqRetry 1) \<and>
   (inbox_abs sample_claimed, SALTS_EBUSY) = spec_request (inbox_abs sample_claimed) (ReqDiscard 1)"
proof -
  have a: "run_request sample_failed (ReqRetry 1) = (fst (flow_inbox_memory_retry sample_failed 1), SALTS_OK)"
    and n: "\<not> request_exhausted sample_failed (ReqRetry 1)" by code_simp+
  have b: "run_request sample_claimed (ReqDiscard 1) = (sample_claimed, SALTS_EBUSY)"
    and k: "\<not> request_exhausted sample_claimed (ReqDiscard 1)" by code_simp+
  show ?thesis
    using inbox_requests_refine [OF sample_config_valid sample_reachable(5) _ a]
      inbox_requests_refine [OF sample_config_valid sample_reachable(3) _ b] n k by simp
qed

section \<open>Properties of the entry points over the memory provider\<close>

definition memory_handle :: "bool \<Rightarrow> flow_inbox_memory \<Rightarrow> flow_inbox_memory inbox_handle" where
  "memory_handle a m = \<lparr>ih_size = ExactSize, ih_version = INBOX_API_VERSION,
     ih_ops = Some (flow_inbox_memory_ops a), ih_ctx = Some m\<rparr>"

lemma memory_handle_bound: "inbox_inv m fs \<Longrightarrow> memory.bound a (memory_handle a m)"
  by (auto simp: memory.bound_def memory_handle_def)

lemma no_live: "count live_slot ss = 0 \<longleftrightarrow> (\<forall>i r. holds ss i r \<longrightarrow> mr_phase r = RECORD_TOMBSTONE)"
  by (fastforce simp: count_zero_iff live_slot_def slot_holds_def holds_def in_set_conv_nth split: option.splits)

text \<open>C7: the consistency checks of the host accept every snapshot of a reachable state.\<close>

theorem inbox_snapshot_accepted:
  assumes "flow_inbox_memory_config_valid (Some c)" and "inbox_reachable c m fs"
  shows "\<exists>s. turbo_flow_inbox_snapshot (Some (memory_handle a m)) (Some INBOX_SNAPSHOT_INIT) =
      (Some s, SALTS_OK) \<and> flow_inbox_snapshot_valid s"
  using memory.host_snapshot [OF memory_handle_bound [OF reachable_inv [OF assms]]] .

theorem inbox_snapshot_accepted_witness:
  "\<exists>s. turbo_flow_inbox_snapshot (Some (memory_handle True sample_completed))
     (Some INBOX_SNAPSHOT_INIT) = (Some s, SALTS_OK) \<and> flow_inbox_snapshot_valid s"
  by (rule inbox_snapshot_accepted [OF sample_config_valid sample_reachable(4)])

text \<open>C8: a scan of the failed records returns, in increasing order and without a gap, the
  first ids after the cursor that fit the caller's array.\<close>

theorem inbox_scan_failed_complete:
  assumes "flow_inbox_memory_config_valid (Some c)" and "inbox_reachable c m fs"
    and "\<forall>e \<in> set es. fe_size e = ExactSize \<and> fe_version e = INBOX_API_VERSION"
  shows "\<exists>es' n. turbo_flow_inbox_scan_failed (Some (memory_handle a m)) after (Array es) (Some 0) =
      (es', Some n, SALTS_OK) \<and>
    map fe_record_id (take n es') =
      take (length es) (sorted_list_of_set {rid. after < rid \<and> (\<exists>v st. inbox_abs m rid = Some (v, Failed st))})"
proof -
  have inv: "inbox_inv m fs" using reachable_inv assms(1,2) .
  then have ids: "ids_ok (im_records m) fs (im_next_record_id m) (im_record_id_exhausted m)"
    by (simp add: inbox_inv_def)
  have failed: "phase_ids RECORD_FAILED (im_records m) after =
      {rid. after < rid \<and> (\<exists>v st. inbox_abs m rid = Some (v, Failed st))}"
    unfolding abs_iff [OF ids] phase_ids_def by (auto simp: lifecycle_cases(2) eq_commute [of "Failed _"])
  obtain es' n where host: "turbo_flow_inbox_scan_failed (Some (memory_handle a m)) after (Array es) (Some 0) =
      (es', Some n, SALTS_OK)"
    and op: "the (op_scan_failed (flow_inbox_memory_ops a)) (the (ih_ctx (memory_handle a m))) after
      (replicate (length es) INBOX_FAILED_ENTRY_INIT) = (es', n, SALTS_OK)"
    using memory.host_scan_failed [OF memory_handle_bound [OF inv] assms(3)] by blast
  have "scan_failed_loop (im_records m) after (replicate (length es) INBOX_FAILED_ENTRY_INIT) = (es', n)"
    using op by (auto simp: memory_table memory_handle_def flow_inbox_memory_scan_failed_def split: prod.splits)
  from scan_failed_ids(3) [OF this] host show ?thesis by (simp add: failed)
qed

theorem inbox_scan_failed_complete_witness:
  "\<exists>es' n. turbo_flow_inbox_scan_failed (Some (memory_handle True sample_failed)) 0
      (Array [INBOX_FAILED_ENTRY_INIT]) (Some 0) = (es', Some n, SALTS_OK) \<and>
    map fe_record_id (take n es') =
      take 1 (sorted_list_of_set {rid. 0 < rid \<and> (\<exists>v st. inbox_abs sample_failed rid = Some (v, Failed st))}) \<and>
    inbox_abs sample_failed 1 = Some (copied_view sample_record, Failed SALTS_EINVAL)"
proof -
  have "inbox_abs sample_failed 1 = Some (copied_view sample_record, Failed SALTS_EINVAL)" by code_simp
  with inbox_scan_failed_complete [OF sample_config_valid sample_reachable(5), of "[INBOX_FAILED_ENTRY_INIT]" True 0]
  show ?thesis by (simp add: INBOX_FAILED_ENTRY_INIT_def)
qed

text \<open>C9: the inbox can be destroyed exactly when it is closed, no admission is in flight and
  every record reached a terminal state; the handle is then reset.\<close>

theorem inbox_destroy_drained:
  assumes "flow_inbox_memory_config_valid (Some c)" and "inbox_reachable c m fs"
  shows "turbo_flow_inbox_destroy (Some (memory_handle a m)) =
    (if \<not> im_accepting m \<and> fs = [] \<and>
        (\<forall>rid v l. inbox_abs m rid = Some (v, l) \<longrightarrow> l = Completed \<or> l = Discarded)
     then (Some INBOX_INIT, SALTS_OK) else (Some (memory_handle a m), SALTS_EBUSY))"
proof -
  have inv: "inbox_inv m fs" using reachable_inv assms(1,2) .
  then have ids: "ids_ok (im_records m) fs (im_next_record_id m) (im_record_id_exhausted m)"
    and c: "counters_ok m fs" by (simp_all add: inbox_inv_def)
  have live: "im_live_records m = 0 \<longleftrightarrow>
      (\<forall>rid v l. inbox_abs m rid = Some (v, l) \<longrightarrow> l = Completed \<or> l = Discarded)"
  proof -
    have "im_live_records m = 0 \<longleftrightarrow>
        (\<forall>i r. holds (im_records m) i r \<longrightarrow> mr_phase r = RECORD_TOMBSTONE)"
      using c unfolding counters_ok_def unat_eq_0 [symmetric] no_live [symmetric] by simp
    then show ?thesis unfolding abs_iff [OF ids] lifecycle_cases(4) [symmetric] by blast
  qed
  have res: "im_reserved_records m = 0 \<longleftrightarrow> fs = []"
    using c by (auto simp: counters_ok_def unat_eq_0 [symmetric])
  have "im_live_records m = 0 \<Longrightarrow> im_in_flight_claims m = 0"
    using c count_live_split [of "im_records m"] by (simp add: counters_ok_def unat_eq_0 [symmetric])
  then show ?thesis
    using memory.bound_valid [OF memory_handle_bound [OF inv]] live res
    by (auto simp: turbo_flow_inbox_destroy_def flow_inbox_memory_destroy_def memory_table memory_handle_def)
qed

theorem inbox_destroy_drained_witness:
  "turbo_flow_inbox_destroy (Some (memory_handle True (fst (flow_inbox_memory_close sample_completed)))) =
     (Some INBOX_INIT, SALTS_OK)"
proof -
  let ?m = "fst (flow_inbox_memory_close sample_completed)"
  have "inbox_step (sample_completed, []) (?m, [])" by (rule inbox_step.close)
  then have r: "inbox_reachable sample_config ?m []"
    by (rule reachable_step [OF sample_reachable(4) r_into_rtranclp])
  have "snd (turbo_flow_inbox_destroy (Some (memory_handle True ?m))) = SALTS_OK" by code_simp
  with inbox_destroy_drained [OF sample_config_valid r, of True] show ?thesis
    by (auto split: if_splits)
qed

end
