(* ===== verification/Flow_Protocol.thy ===== *)
theory Flow_Protocol
  imports Flow_Prelude
begin

unbundle bit_operations_syntax

text \<open>
  The provider-neutral protocol boundary: the model of
  \<open>ingress/protocol/common/src/flow_protocol.c\<close>, of the types of \<open>turbo_flow_protocol.h\<close> and
  \<open>turbo_flow_protocol_plugin.h\<close> and of the part of
  \<open>ingress/protocol/src/flow_protocol_plugin_support.c\<close> every codec shares.

  A codec is a table of operations on complete frames: \<open>inspect\<close> validates a frame and reads its
  metadata, \<open>reply\<close> builds the answer to a settled request, \<open>encode\<close> builds a command frame, and
  two optional ones decode the application content and build replies as segments.  The host
  checks its arguments, calls the codec, inspects every frame the codec generates before it
  publishes it, and fills the parts of the metadata the codec does not own.

  Conventions.
  \<^item> Text (\<open>const char *\<close> and the fixed \<open>char\<close> arrays) is the bytes before the terminating NUL;
    a pointer to it is an option, \<open>None\<close> for NULL.
  \<^item> A buffer is its address, 0 for NULL, and its bytes; its capacity or size is the number of
    bytes.  An object never spans more than half of the address space, so sums of a few buffer
    sizes do not wrap and sizes are natural numbers.
  \<^item> A codec returns \<open>Inl rc\<close> for a status other than \<open>SALTS_OK\<close>, and \<open>Inr\<close> of the updated
    argument for \<open>SALTS_OK\<close>.  What a failing codec left in an output is not modelled: the host
    discards its local copies, and the contract leaves buffer bytes unspecified after a failure.
  \<^item> The host never passes a NULL view or output to a codec; the NULL tests of the codecs for
    those arguments are left out, those for the buffers in them are kept.
  \<^item> The codec context (a message counter) is passed in and returned.
\<close>

section \<open>Fallible computations\<close>

fun and_then :: "status + 'a \<Rightarrow> ('a \<Rightarrow> status + 'b) \<Rightarrow> status + 'b" where
  "and_then (Inl rc) f = Inl rc"
| "and_then (Inr a) f = f a"

lemma and_then_Inr_iff [guards]:
  "and_then x f = Inr y \<longleftrightarrow> (\<exists>a. x = Inr a \<and> f a = Inr y)"
  by (cases x) auto

lemma guard_Inr [guards]:
  "(if c then Inl e else x) = Inr y \<longleftrightarrow> \<not> c \<and> x = Inr y"
  by simp

lemma guard_Inr_final [guards]:
  "(if c then Inr x else Inl e) = Inr y \<longleftrightarrow> c \<and> x = y"
  by simp

section \<open>Text\<close>

type_synonym ctext = "u8 list"

definition ctext_of :: "string \<Rightarrow> ctext" where
  "ctext_of s = map (\<lambda>c. of_nat (of_char c)) s"

text \<open>The test \<open>p && p[0] != '\0'\<close>.\<close>

definition text_given :: "ctext option \<Rightarrow> bool" where
  "text_given p = (case p of None \<Rightarrow> False | Some t \<Rightarrow> t \<noteq> [])"

text \<open>The conversions \<open>%02x\<close> and \<open>%04x\<close> of \<open>snprintf\<close>, and two-byte integers in network order.\<close>

definition hex_digit :: "u8 \<Rightarrow> u8" where
  "hex_digit n = (if n < 10 then 0x30 + n else 0x57 + n)"

definition high_nibble :: "u8 \<Rightarrow> u8" where "high_nibble b = drop_bit 4 b"
definition low_nibble :: "u8 \<Rightarrow> u8" where "low_nibble b = b AND 0x0f"

definition hex2 :: "u8 \<Rightarrow> ctext" where
  "hex2 b = [hex_digit (high_nibble b), hex_digit (low_nibble b)]"

definition be16 :: "u8 \<Rightarrow> u8 \<Rightarrow> u16" where
  "be16 hi lo = push_bit 8 (ucast hi) OR ucast lo"

definition hi8 :: "u16 \<Rightarrow> u8" where "hi8 w = ucast (drop_bit 8 w)"
definition lo8 :: "u16 \<Rightarrow> u8" where "lo8 w = ucast w"

definition hex4 :: "u16 \<Rightarrow> ctext" where
  "hex4 w = hex2 (hi8 w) @ hex2 (lo8 w)"

text \<open>The checksum of the frames: the exclusive or of the bytes.\<close>

definition xor_bytes :: "u8 list \<Rightarrow> u8" where
  "xor_bytes bs = fold (\<lambda>b c. c XOR b) bs 0"

section \<open>Types\<close>

definition PROTOCOL_ABI_VERSION :: u32 where "PROTOCOL_ABI_VERSION = 1"
definition PROTOCOL_DEVICE_ID_MAX :: nat where "PROTOCOL_DEVICE_ID_MAX = 127"
definition PROTOCOL_OPERATION_MAX :: nat where "PROTOCOL_OPERATION_MAX = 63"
definition PROTOCOL_RESOURCE_MAX :: nat where "PROTOCOL_RESOURCE_MAX = 255"
definition PROTOCOL_VERSION_MAX :: nat where "PROTOCOL_VERSION_MAX = 15"
definition PROTOCOL_CORRELATION_MAX :: nat where "PROTOCOL_CORRELATION_MAX = 63"
definition PROTOCOL_SEMANTIC_MEDIA_TYPE_MAX :: nat where
  "PROTOCOL_SEMANTIC_MEDIA_TYPE_MAX = 127"
definition PROTOCOL_SEMANTIC_TYPE_NONE :: u32 where "PROTOCOL_SEMANTIC_TYPE_NONE = - 1"
definition PROTOCOL_REPLY_VECTOR_MAX_SEGMENTS :: nat where
  "PROTOCOL_REPLY_VECTOR_MAX_SEGMENTS = 32"

lemmas protocol_limits = PROTOCOL_DEVICE_ID_MAX_def PROTOCOL_OPERATION_MAX_def
  PROTOCOL_RESOURCE_MAX_def PROTOCOL_VERSION_MAX_def PROTOCOL_CORRELATION_MAX_def
  PROTOCOL_SEMANTIC_MEDIA_TYPE_MAX_def PROTOCOL_REPLY_VECTOR_MAX_SEGMENTS_def

datatype protocol_kind =
    PROTOCOL_MQTT_SN | PROTOCOL_COAP | PROTOCOL_LWM2M | PROTOCOL_OCPP | PROTOCOL_GBT_32960
  | PROTOCOL_JTT_808 | PROTOCOL_KIND_OUT_OF_RANGE nat

datatype protocol_direction = DIRECTION_ZERO | DIRECTION_UP | DIRECTION_DOWN

definition CAP_INGRESS :: u64 where "CAP_INGRESS = 1"
definition CAP_EGRESS :: u64 where "CAP_EGRESS = 2"
definition CAP_RAW_PRESERVE :: u64 where "CAP_RAW_PRESERVE = 4"
definition CAP_PROTOCOL_REPLY :: u64 where "CAP_PROTOCOL_REPLY = 8"
definition CAP_COMMAND_ENCODE :: u64 where "CAP_COMMAND_ENCODE = 16"
definition CAP_SEMANTIC_DECODE :: u64 where "CAP_SEMANTIC_DECODE = 32"

lemmas protocol_caps = CAP_INGRESS_def CAP_EGRESS_def CAP_RAW_PRESERVE_def
  CAP_PROTOCOL_REPLY_def CAP_COMMAND_ENCODE_def CAP_SEMANTIC_DECODE_def

record open_request =
  or_size :: abi_size
  or_abi_version :: u32
  or_protocol :: protocol_kind
  or_protocol_version :: "ctext option"
  or_max_frame_size :: nat

record frame_view =
  fv_size :: abi_size
  fv_abi_version :: u32
  fv_data :: u64
  fv_bytes :: "u8 list"
  fv_device_id :: "ctext option"
  fv_protocol_version :: "ctext option"

definition FRAME_VIEW_INIT :: frame_view where
  "FRAME_VIEW_INIT = \<lparr>fv_size = ExactSize, fv_abi_version = PROTOCOL_ABI_VERSION, fv_data = 0,
     fv_bytes = [], fv_device_id = None, fv_protocol_version = None\<rparr>"

record protocol_metadata =
  pm_size :: abi_size
  pm_abi_version :: u32
  pm_protocol :: protocol_kind
  pm_direction :: protocol_direction
  pm_message_type :: u32
  pm_sequence :: u64
  pm_protocol_version :: ctext
  pm_device_id :: ctext
  pm_operation :: ctext
  pm_correlation_id :: ctext

definition METADATA_INIT :: protocol_metadata where
  "METADATA_INIT = \<lparr>pm_size = ExactSize, pm_abi_version = PROTOCOL_ABI_VERSION,
     pm_protocol = PROTOCOL_KIND_OUT_OF_RANGE 0, pm_direction = DIRECTION_ZERO,
     pm_message_type = 0, pm_sequence = 0, pm_protocol_version = [], pm_device_id = [],
     pm_operation = [], pm_correlation_id = []\<rparr>"

record protocol_info =
  pi_size :: abi_size
  pi_abi_version :: u32
  pi_protocol :: protocol_kind
  pi_capabilities :: u64
  pi_max_frame_size :: nat
  pi_name :: ctext
  pi_protocol_version :: ctext

record message_output =
  mo_size :: abi_size
  mo_abi_version :: u32
  mo_payload :: u64
  mo_bytes :: "u8 list"
  mo_payload_size :: nat
  mo_metadata :: protocol_metadata

record semantic_output =
  so_size :: abi_size
  so_abi_version :: u32
  so_data :: u64
  so_bytes :: "u8 list"
  so_data_size :: nat
  so_semantic_type :: u32
  so_media_type :: ctext

record frame_output =
  fo_size :: abi_size
  fo_abi_version :: u32
  fo_data :: u64
  fo_bytes :: "u8 list"
  fo_data_size :: nat
  fo_metadata :: protocol_metadata

text \<open>
  A retained slice of a pooled buffer: the used bytes of the buffer (\<open>None\<close> for a NULL buffer),
  the offset of the slice's data pointer from the start of the buffer (\<open>None\<close> for NULL) and the
  length.  The slot \<open>{0}\<close> is empty.
\<close>

record mem_slice =
  ms_buffer :: "u8 list option"
  ms_offset :: "int option"
  ms_length :: nat

definition EMPTY_SLICE :: mem_slice where
  "EMPTY_SLICE = \<lparr>ms_buffer = None, ms_offset = None, ms_length = 0\<rparr>"

record slices_output =
  sl_size :: abi_size
  sl_abi_version :: u32
  sl_segments :: "mem_slice list option"
  sl_segment_count :: nat
  sl_data_size :: nat
  sl_metadata :: protocol_metadata

record command_view =
  cv_size :: abi_size
  cv_abi_version :: u32
  cv_device_id :: "ctext option"
  cv_operation :: "ctext option"
  cv_resource :: "ctext option"
  cv_correlation_id :: "ctext option"
  cv_sequence :: u64
  cv_payload :: u64
  cv_bytes :: "u8 list"

section \<open>Codec operations\<close>

type_synonym inspect_fn = "ctext \<Rightarrow> frame_view \<Rightarrow> protocol_metadata \<Rightarrow> status + protocol_metadata"
type_synonym 's reply_fn =
  "'s \<Rightarrow> ctext \<Rightarrow> frame_view \<Rightarrow> status \<Rightarrow> frame_output \<Rightarrow> 's \<times> (status + frame_output)"
type_synonym encode_fn = "ctext \<Rightarrow> command_view \<Rightarrow> frame_output \<Rightarrow> status + frame_output"
type_synonym decode_semantic_fn =
  "ctext \<Rightarrow> frame_view \<Rightarrow> protocol_metadata \<Rightarrow> semantic_output \<Rightarrow>
     status + protocol_metadata \<times> semantic_output"
type_synonym 's reply_slices_fn =
  "'s \<Rightarrow> ctext \<Rightarrow> frame_view \<Rightarrow> status \<Rightarrow> slices_output \<Rightarrow> 's \<times> (status + slices_output)"

text \<open>The \<open>size\<close> of a table decides which of its callbacks are read.  The offsets are those of
  64-bit targets: \<open>inspect\<close> ends at 24, \<open>reply\<close> at 32, \<open>encode\<close> at 40, \<open>decode_semantic\<close> at 48
  and \<open>reply_slices\<close> at 56.\<close>

record 's codec_ops =
  co_size :: nat
  co_abi_version :: u32
  co_inspect :: "inspect_fn option"
  co_reply :: "'s reply_fn option"
  co_encode :: "encode_fn option"
  co_decode_semantic :: "decode_semantic_fn option"
  co_reply_slices :: "'s reply_slices_fn option"

record 's protocol =
  ps_open :: bool
  ps_protocol :: protocol_kind
  ps_capabilities :: u64
  ps_max_frame_size :: nat
  ps_name :: ctext
  ps_protocol_version :: ctext
  ps_ops :: "'s codec_ops"
  ps_codec_ctx :: 's

text \<open>
  The buffer pool of the Salts SDK (\<open>mem_get_buffer\<close>, \<open>mem_slice\<close>) is not part of the
  repository.  A codec that uses it takes it as a parameter: whether the \<open>n\<close>-th request of a call
  for a buffer of a given size succeeds, and the slice of a buffer's used bytes at an offset and
  length.  \<open>mem_lib_law\<close> is what the codecs rely on: a non-empty slice inside the used bytes is
  that part of the buffer.
\<close>

record mem_lib =
  ml_get :: "nat \<Rightarrow> nat \<Rightarrow> bool"
  ml_slice :: "u8 list \<Rightarrow> nat \<Rightarrow> nat \<Rightarrow> mem_slice"

definition mem_lib_law :: "mem_lib \<Rightarrow> bool" where
  "mem_lib_law m \<longleftrightarrow>
     (\<forall>used offset len. 0 < len \<longrightarrow> offset + len \<le> length used \<longrightarrow>
        ml_slice m used offset len =
          \<lparr>ms_buffer = Some used, ms_offset = Some (int offset), ms_length = len\<rparr>)"

text \<open>Storing the codec's segments in the slots of an output, and its frame in an output buffer.\<close>

definition slices_put :: "mem_slice list \<Rightarrow> slices_output \<Rightarrow> slices_output" where
  "slices_put ss x =
     x\<lparr>sl_segments := Some (ss @ drop (length ss) (the (sl_segments x))),
       sl_segment_count := length ss, sl_data_size := sum_list (map ms_length ss)\<rparr>"

definition overwrite :: "u8 list \<Rightarrow> u8 list \<Rightarrow> u8 list" where
  "overwrite bs buffer = bs @ drop (length bs) buffer"

definition frame_put :: "u8 list \<Rightarrow> frame_output \<Rightarrow> frame_output" where
  "frame_put bs x = x\<lparr>fo_bytes := overwrite bs (fo_bytes x), fo_data_size := length bs\<rparr>"

section \<open>Metadata text\<close>

definition flow_protocol_metadata_text_n :: "nat \<Rightarrow> ctext option \<Rightarrow> nat \<Rightarrow> status + ctext" where
  "flow_protocol_metadata_text_n capacity t len =
     (if capacity = 0 \<or> t = None \<or> len = 0 then Inl SALTS_EINVAL
      else if len \<ge> capacity then Inl SALTS_EMSGSIZE
      else if 0 \<in> set (take len (the t)) then Inl SALTS_EPROTO
      else Inr (take len (the t)))"

definition flow_protocol_metadata_text :: "nat \<Rightarrow> ctext option \<Rightarrow> status + ctext" where
  "flow_protocol_metadata_text capacity t =
     flow_protocol_metadata_text_n capacity t (case t of None \<Rightarrow> 0 | Some x \<Rightarrow> length x)"

text \<open>The text \<open>snprintf\<close> produces is passed in place of the format and its argument.\<close>

definition flow_protocol_metadata_format :: "nat \<Rightarrow> ctext \<Rightarrow> status + ctext" where
  "flow_protocol_metadata_format capacity formatted =
     (if capacity > 0 \<and> 0 < length formatted \<and> length formatted < capacity then Inr formatted
      else Inl SALTS_EMSGSIZE)"

text \<open>How every codec ends: the operation is a fixed name or a formatted number.\<close>

definition set_operation ::
    "string option \<Rightarrow> ctext \<Rightarrow> protocol_metadata \<Rightarrow> status + protocol_metadata" where
  "set_operation name formatted m =
     and_then
       (case name of
          Some s \<Rightarrow> flow_protocol_metadata_text (PROTOCOL_OPERATION_MAX + 1) (Some (ctext_of s))
        | None \<Rightarrow> flow_protocol_metadata_format (PROTOCOL_OPERATION_MAX + 1) formatted)
       (\<lambda>t. Inr (m\<lparr>pm_operation := t\<rparr>))"

section \<open>Host\<close>

definition flow_protocol_kind_valid :: "protocol_kind \<Rightarrow> bool" where
  "flow_protocol_kind_valid k = (case k of PROTOCOL_KIND_OUT_OF_RANGE n \<Rightarrow> False | _ \<Rightarrow> True)"

fun turbo_flow_protocol_kind_name :: "protocol_kind \<Rightarrow> string option" where
  "turbo_flow_protocol_kind_name PROTOCOL_MQTT_SN = Some ''mqtt-sn''"
| "turbo_flow_protocol_kind_name PROTOCOL_COAP = Some ''coap''"
| "turbo_flow_protocol_kind_name PROTOCOL_LWM2M = Some ''lwm2m''"
| "turbo_flow_protocol_kind_name PROTOCOL_OCPP = Some ''ocpp''"
| "turbo_flow_protocol_kind_name PROTOCOL_GBT_32960 = Some ''gbt32960''"
| "turbo_flow_protocol_kind_name PROTOCOL_JTT_808 = Some ''jtt808''"
| "turbo_flow_protocol_kind_name (PROTOCOL_KIND_OUT_OF_RANGE n) = None"

definition flow_protocol_text_copy :: "nat \<Rightarrow> ctext option \<Rightarrow> status + ctext" where
  "flow_protocol_text_copy capacity t =
     (if capacity = 0 \<or> t = None then Inl SALTS_EINVAL
      else if the t = [] then Inl SALTS_EINVAL
      else if length (the t) \<ge> capacity then Inl SALTS_EMSGSIZE
      else Inr (the t))"

definition flow_protocol_segment_valid :: "ctext \<Rightarrow> bool" where
  "flow_protocol_segment_valid t \<longleftrightarrow>
     t \<noteq> [] \<and>
     (\<forall>c \<in> set t. \<not> (c \<le> 0x20 \<or> c \<ge> 0x7f \<or> c = 0x2f \<or> c = 0x2b \<or> c = 0x23))"

definition flow_protocol_cstr_segment_valid :: "ctext option \<Rightarrow> nat \<Rightarrow> bool" where
  "flow_protocol_cstr_segment_valid t maximum \<longleftrightarrow>
     (case t of None \<Rightarrow> False | Some x \<Rightarrow> length x \<le> maximum \<and> flow_protocol_segment_valid x)"

text \<open>Two byte ranges, each an address and a size; addresses are 64 bits wide.\<close>

definition flow_protocol_ranges_overlap :: "u64 \<Rightarrow> u64 \<Rightarrow> u64 \<Rightarrow> u64 \<Rightarrow> bool" where
  "flow_protocol_ranges_overlap left left_size right right_size =
     (if left_size = 0 \<or> right_size = 0 then False
      else if left = 0 \<or> right = 0 \<or> left_size > UINT64_MAX - left \<or>
              right_size > UINT64_MAX - right then True
      else left < right + right_size \<and> right < left + left_size)"

definition flow_protocol_frame_validate :: "'s protocol option \<Rightarrow> frame_view option \<Rightarrow> status" where
  "flow_protocol_frame_validate p frame =
     (case (p, frame) of
        (Some q, Some f) \<Rightarrow>
          if fv_size f = ShortSize \<or> fv_abi_version f \<noteq> PROTOCOL_ABI_VERSION \<or>
             fv_data f = 0 \<or> length (fv_bytes f) = 0
          then SALTS_EINVAL
          else if length (fv_bytes f) > ps_max_frame_size q then SALTS_EMSGSIZE
          else if text_given (fv_protocol_version f) \<and>
                  the (fv_protocol_version f) \<noteq> ps_protocol_version q
          then SALTS_ENOTSUP
          else if text_given (fv_device_id f) \<and>
                  \<not> flow_protocol_cstr_segment_valid (fv_device_id f) PROTOCOL_DEVICE_ID_MAX
          then SALTS_EINVAL
          else SALTS_OK
      | _ \<Rightarrow> SALTS_EINVAL)"

text \<open>The device: the frame's own identity, or else the caller's, and never two different ones.\<close>

definition metadata_device :: "frame_view \<Rightarrow> protocol_metadata \<Rightarrow> status + ctext" where
  "metadata_device f inspected =
     (if pm_device_id inspected = []
      then if \<not> text_given (fv_device_id f) then Inl SALTS_EPROTO
           else flow_protocol_text_copy (PROTOCOL_DEVICE_ID_MAX + 1) (fv_device_id f)
      else if text_given (fv_device_id f) \<and> pm_device_id inspected \<noteq> the (fv_device_id f)
      then Inl SALTS_EPROTO
      else Inr (pm_device_id inspected))"

definition flow_protocol_metadata_finalize ::
    "'s protocol \<Rightarrow> frame_view \<Rightarrow> protocol_direction \<Rightarrow> protocol_metadata \<Rightarrow>
     status + protocol_metadata" where
  "flow_protocol_metadata_finalize p f direction inspected =
     (if pm_size inspected = ShortSize \<or> pm_abi_version inspected \<noteq> PROTOCOL_ABI_VERSION \<or>
         \<not> flow_protocol_cstr_segment_valid (Some (pm_operation inspected)) PROTOCOL_OPERATION_MAX
      then Inl SALTS_EPROTO
      else
        and_then
          (metadata_device f inspected)
          (\<lambda>dev.
             if \<not> flow_protocol_cstr_segment_valid (Some dev) PROTOCOL_DEVICE_ID_MAX
             then Inl SALTS_EPROTO
             else and_then
               (flow_protocol_text_copy (PROTOCOL_VERSION_MAX + 1) (Some (ps_protocol_version p)))
               (\<lambda>v. Inr (inspected\<lparr>pm_device_id := dev, pm_protocol := ps_protocol p,
                         pm_direction := direction, pm_protocol_version := v\<rparr>))))"

definition flow_protocol_inspect ::
    "'s protocol option \<Rightarrow> frame_view option \<Rightarrow> protocol_direction \<Rightarrow> status + protocol_metadata" where
  "flow_protocol_inspect p frame direction =
     (if flow_protocol_frame_validate p frame \<noteq> SALTS_OK
      then Inl (flow_protocol_frame_validate p frame)
      else if \<not> ps_open (the p) then Inl SALTS_EBUSY
      else and_then
        (the (co_inspect (ps_ops (the p))) (ps_protocol_version (the p)) (the frame) METADATA_INIT)
        (\<lambda>inspected. flow_protocol_metadata_finalize (the p) (the frame) direction inspected))"

definition turbo_flow_protocol_create ::
    "bool \<Rightarrow> open_request option \<Rightarrow> ctext option \<Rightarrow> ctext option \<Rightarrow> u64 \<Rightarrow> 's codec_ops option \<Rightarrow> 's \<Rightarrow>
     bool \<Rightarrow> status + 's protocol" where
  "turbo_flow_protocol_create alloc_ok request name default_version capabilities ops ctx out_given =
     (case (request, ops) of
        (Some r, Some o1) \<Rightarrow>
          (let required = CAP_INGRESS OR CAP_EGRESS OR CAP_RAW_PRESERVE;
               semantic_callback = (co_size o1 \<ge> 48 \<and> co_decode_semantic o1 \<noteq> None);
               semantic_capability = (capabilities AND CAP_SEMANTIC_DECODE \<noteq> 0)
           in if or_size r = ShortSize \<or> or_abi_version r \<noteq> PROTOCOL_ABI_VERSION \<or>
                 \<not> flow_protocol_kind_valid (or_protocol r) \<or> name = None \<or>
                 default_version = None \<or> or_max_frame_size r = 0 \<or>
                 capabilities AND required \<noteq> required \<or> co_size o1 < 24 \<or>
                 co_abi_version o1 \<noteq> PROTOCOL_ABI_VERSION \<or> co_inspect o1 = None \<or>
                 semantic_callback \<noteq> semantic_capability \<or> \<not> out_given
              then Inl SALTS_EINVAL
              else if \<not> flow_protocol_cstr_segment_valid name PROTOCOL_OPERATION_MAX
              then Inl SALTS_EINVAL
              else if \<not> alloc_ok then Inl SALTS_ENOMEM
              else
                (let version = (if text_given (or_protocol_version r) then or_protocol_version r
                                else default_version);
                     copied = o1\<lparr>
                       co_reply := (if co_size o1 \<ge> 32 then co_reply o1 else None),
                       co_encode := (if co_size o1 \<ge> 40 then co_encode o1 else None),
                       co_decode_semantic := (if co_size o1 \<ge> 48 then co_decode_semantic o1 else None),
                       co_reply_slices := (if co_size o1 \<ge> 56 then co_reply_slices o1 else None)\<rparr>
                 in and_then (flow_protocol_text_copy (PROTOCOL_OPERATION_MAX + 1) name) (\<lambda>n.
                    and_then (flow_protocol_text_copy (PROTOCOL_VERSION_MAX + 1) version) (\<lambda>v.
                      Inr \<lparr>ps_open = True, ps_protocol = or_protocol r,
                           ps_capabilities = capabilities,
                           ps_max_frame_size = or_max_frame_size r, ps_name = n,
                           ps_protocol_version = v, ps_ops = copied, ps_codec_ctx = ctx\<rparr>))))
      | _ \<Rightarrow> Inl SALTS_EINVAL)"

text \<open>The instance is freed: nothing of it remains (\<open>None\<close>).\<close>

definition turbo_flow_protocol_destroy :: "'s protocol option \<Rightarrow> 's protocol option" where
  "turbo_flow_protocol_destroy p = (case p of None \<Rightarrow> None | Some q \<Rightarrow> None)"

definition flow_protocol_message_output_reset ::
    "message_output option \<Rightarrow> status \<times> message_output option" where
  "flow_protocol_message_output_reset output =
     (case output of
        None \<Rightarrow> (SALTS_EINVAL, None)
      | Some m \<Rightarrow>
          if mo_size m = ShortSize \<or> mo_abi_version m \<noteq> PROTOCOL_ABI_VERSION \<or> mo_payload m = 0
          then (SALTS_EINVAL, output)
          else (SALTS_OK, Some (m\<lparr>mo_payload_size := 0, mo_metadata := METADATA_INIT\<rparr>)))"

definition flow_protocol_semantic_output_reset ::
    "semantic_output option \<Rightarrow> status \<times> semantic_output option" where
  "flow_protocol_semantic_output_reset output =
     (case output of
        None \<Rightarrow> (SALTS_EINVAL, None)
      | Some s \<Rightarrow>
          if so_size s = ShortSize \<or> so_abi_version s \<noteq> PROTOCOL_ABI_VERSION \<or>
             so_data s = 0 \<and> length (so_bytes s) \<noteq> 0
          then (SALTS_EINVAL, output)
          else (SALTS_OK, Some (s\<lparr>so_data_size := 0,
                  so_semantic_type := PROTOCOL_SEMANTIC_TYPE_NONE, so_media_type := []\<rparr>)))"

definition message_publish :: "frame_view \<Rightarrow> protocol_metadata \<Rightarrow> message_output \<Rightarrow> message_output" where
  "message_publish f md m =
     m\<lparr>mo_bytes := overwrite (fv_bytes f) (mo_bytes m),
       mo_payload_size := length (fv_bytes f), mo_metadata := md\<rparr>"

definition turbo_flow_protocol_decode ::
    "'s protocol option \<Rightarrow> frame_view option \<Rightarrow> message_output option \<Rightarrow>
     status \<times> message_output option" where
  "turbo_flow_protocol_decode p frame output =
     (case flow_protocol_message_output_reset output of
        (rc, out1) \<Rightarrow>
          if rc \<noteq> SALTS_OK then (rc, out1)
          else
            (case flow_protocol_inspect p frame DIRECTION_UP of
               Inl rc \<Rightarrow> (rc, out1)
             | Inr md \<Rightarrow>
                 if length (fv_bytes (the frame)) > length (mo_bytes (the out1))
                 then (SALTS_EMSGSIZE, out1)
                 else (SALTS_OK, Some (message_publish (the frame) md (the out1)))))"

definition semantic_unchanged :: "semantic_output \<Rightarrow> semantic_output \<Rightarrow> bool" where
  "semantic_unchanged before after \<longleftrightarrow>
     \<not> (so_size after = ShortSize \<or> so_abi_version after \<noteq> PROTOCOL_ABI_VERSION \<or>
        so_data after \<noteq> so_data before \<or> length (so_bytes after) \<noteq> length (so_bytes before) \<or>
        so_data_size after > length (so_bytes after) \<or>
        length (so_media_type after) > PROTOCOL_SEMANTIC_MEDIA_TYPE_MAX)"

definition flow_protocol_semantic_call ::
    "'s protocol \<Rightarrow> frame_view \<Rightarrow> message_output \<Rightarrow> semantic_output \<Rightarrow>
     status + message_output \<times> semantic_output" where
  "flow_protocol_semantic_call q f raw sem =
     (if length (fv_bytes f) > length (mo_bytes raw) then Inl SALTS_EMSGSIZE
      else if flow_protocol_ranges_overlap (mo_payload raw) (of_nat (length (mo_bytes raw)))
                (so_data sem) (of_nat (length (so_bytes sem))) \<or>
              flow_protocol_ranges_overlap (fv_data f) (of_nat (length (fv_bytes f)))
                (so_data sem) (of_nat (length (so_bytes sem)))
      then Inl SALTS_EINVAL
      else
        and_then
          (the (co_decode_semantic (ps_ops q)) (ps_protocol_version q) f METADATA_INIT sem)
          (\<lambda>(inspected, semantic).
             if \<not> semantic_unchanged sem semantic then Inl SALTS_EPROTO
             else and_then (flow_protocol_metadata_finalize q f DIRECTION_UP inspected)
               (\<lambda>md. Inr (message_publish f md raw, semantic))))"

definition turbo_flow_protocol_decode_semantic ::
    "'s protocol option \<Rightarrow> frame_view option \<Rightarrow> message_output option \<Rightarrow> semantic_output option \<Rightarrow>
     status \<times> message_output option \<times> semantic_output option" where
  "turbo_flow_protocol_decode_semantic p frame raw_output semantic_output =
     (case flow_protocol_message_output_reset raw_output of
        (rc, raw) \<Rightarrow>
          if rc \<noteq> SALTS_OK then (rc, raw, semantic_output)
          else
            (case flow_protocol_semantic_output_reset semantic_output of
               (rc, sem) \<Rightarrow>
                 if rc \<noteq> SALTS_OK then (rc, raw, sem)
                 else if flow_protocol_frame_validate p frame \<noteq> SALTS_OK
                 then (flow_protocol_frame_validate p frame, raw, sem)
                 else if \<not> ps_open (the p) then (SALTS_EBUSY, raw, sem)
                 else if co_decode_semantic (ps_ops (the p)) = None then (SALTS_ENOTSUP, raw, sem)
                 else
                   (case flow_protocol_semantic_call (the p) (the frame) (the raw) (the sem) of
                      Inl rc \<Rightarrow> (rc, raw, sem)
                    | Inr (raw', sem') \<Rightarrow> (SALTS_OK, Some raw', Some sem'))))"

definition flow_protocol_frame_output_validate ::
    "frame_output option \<Rightarrow> status \<times> frame_output option" where
  "flow_protocol_frame_output_validate output =
     (case output of
        None \<Rightarrow> (SALTS_EINVAL, None)
      | Some x \<Rightarrow>
          if fo_size x = ShortSize \<or> fo_abi_version x \<noteq> PROTOCOL_ABI_VERSION \<or>
             fo_data x = 0 \<or> length (fo_bytes x) = 0
          then (SALTS_EINVAL, output)
          else (SALTS_OK, Some (x\<lparr>fo_data_size := 0, fo_metadata := METADATA_INIT\<rparr>)))"

text \<open>The view of the bytes a codec put at the front of an output.\<close>

definition generated_view :: "'s protocol \<Rightarrow> ctext option \<Rightarrow> frame_output \<Rightarrow> frame_view" where
  "generated_view p device_id x =
     FRAME_VIEW_INIT\<lparr>fv_data := fo_data x, fv_bytes := take (fo_data_size x) (fo_bytes x),
       fv_device_id := device_id, fv_protocol_version := Some (ps_protocol_version p)\<rparr>"

definition flow_protocol_generated_frame_validate ::
    "'s protocol \<Rightarrow> ctext option \<Rightarrow> frame_output \<Rightarrow> status \<times> frame_output" where
  "flow_protocol_generated_frame_validate p device_id x =
     (if fo_data_size x = 0 then (SALTS_OK, x)
      else if fo_data_size x > length (fo_bytes x) \<or> fo_data_size x > ps_max_frame_size p
      then (SALTS_EMSGSIZE, x)
      else
        (case flow_protocol_inspect (Some p) (Some (generated_view p device_id x)) DIRECTION_DOWN of
           Inl rc \<Rightarrow> (rc, x\<lparr>fo_data_size := 0\<rparr>)
         | Inr md \<Rightarrow> (SALTS_OK, x\<lparr>fo_metadata := md\<rparr>)))"

definition turbo_flow_protocol_reply ::
    "'s protocol option \<Rightarrow> frame_view option \<Rightarrow> status \<Rightarrow> frame_output option \<Rightarrow>
     's protocol option \<times> status \<times> frame_output option" where
  "turbo_flow_protocol_reply p request status output =
     (case flow_protocol_frame_output_validate output of
        (rc, out1) \<Rightarrow>
          if rc \<noteq> SALTS_OK \<or> p = None then (p, SALTS_EINVAL, out1)
          else if co_reply (ps_ops (the p)) = None \<or>
                  ps_capabilities (the p) AND CAP_PROTOCOL_REPLY = 0
          then (p, SALTS_ENOTSUP, out1)
          else
            (case flow_protocol_inspect p request DIRECTION_UP of
               Inl rc \<Rightarrow> (p, rc, out1)
             | Inr request_metadata \<Rightarrow>
                 (case the (co_reply (ps_ops (the p))) (ps_codec_ctx (the p))
                         (ps_protocol_version (the p)) (the request) status (the out1) of
                    (ctx, result) \<Rightarrow>
                      (let q = (the p)\<lparr>ps_codec_ctx := ctx\<rparr>
                       in case result of
                            Inl rc \<Rightarrow> (Some q, rc, Some ((the out1)\<lparr>fo_data_size := 0\<rparr>))
                          | Inr x \<Rightarrow>
                              if fo_data_size x = 0
                              then (Some q, SALTS_OK, Some (x\<lparr>fo_metadata :=
                                      request_metadata\<lparr>pm_direction := DIRECTION_DOWN\<rparr>\<rparr>))
                              else
                                (case flow_protocol_generated_frame_validate q
                                        (Some (pm_device_id request_metadata)) x of
                                   (rc, x') \<Rightarrow> (Some q, rc, Some x'))))))"

definition flow_protocol_reply_slice_valid :: "mem_slice \<Rightarrow> bool" where
  "flow_protocol_reply_slice_valid s =
     (case (ms_buffer s, ms_offset s) of
        (Some used, Some offset) \<Rightarrow>
          if ms_length s = 0 then False
          else if length used = 0 then False
          else if offset < 0 then False
          else nat offset < length used \<and> ms_length s \<le> length used - nat offset
      | _ \<Rightarrow> False)"

definition slice_bytes :: "mem_slice \<Rightarrow> u8 list" where
  "slice_bytes s =
     (case (ms_buffer s, ms_offset s) of
        (Some used, Some offset) \<Rightarrow> take (ms_length s) (drop (nat offset) used)
      | _ \<Rightarrow> [])"

text \<open>Releasing a slice drops its reference and clears the slot.\<close>

definition turbo_flow_protocol_frame_slices_output_release ::
    "slices_output option \<Rightarrow> slices_output option" where
  "turbo_flow_protocol_frame_slices_output_release output =
     (case output of
        None \<Rightarrow> None
      | Some x \<Rightarrow>
          (case sl_segments x of
             None \<Rightarrow> output
           | Some segments \<Rightarrow>
               (let n = min (sl_segment_count x) (length segments)
                in Some (x\<lparr>sl_segments := Some (replicate n EMPTY_SLICE @ drop n segments),
                       sl_segment_count := 0, sl_data_size := 0,
                       sl_metadata := METADATA_INIT\<rparr>))))"

text \<open>The loop over the published segments: their total length, unless one is malformed.\<close>

fun segments_total :: "nat \<Rightarrow> mem_slice list \<Rightarrow> nat option" where
  "segments_total whole [] = Some whole"
| "segments_total whole (s # ss) =
     (if \<not> flow_protocol_reply_slice_valid s \<or> whole > unat SIZE_MAX - ms_length s then None
      else segments_total (whole + ms_length s) ss)"

text \<open>What the host does with an output the codec filled: the status, and the output it keeps
  (\<open>None\<close>: it releases the segments).\<close>

definition flow_protocol_slices_check ::
    "'s protocol \<Rightarrow> frame_view \<Rightarrow> protocol_metadata \<Rightarrow> slices_output \<Rightarrow> status \<times> slices_output option" where
  "flow_protocol_slices_check q request request_metadata x =
     (let segments = the (sl_segments x) in
      if sl_segment_count x = 0 then
        if sl_data_size x \<noteq> 0 then (SALTS_EPROTO, Some x)
        else (SALTS_OK, Some (x\<lparr>sl_metadata := request_metadata\<lparr>pm_direction := DIRECTION_DOWN\<rparr>\<rparr>))
      else if sl_segment_count x > length segments then (SALTS_EPROTO, None)
      else
        (case segments_total 0 (take (sl_segment_count x) segments) of
           None \<Rightarrow> (SALTS_EPROTO, None)
         | Some whole \<Rightarrow>
             if whole = 0 \<or> whole \<noteq> sl_data_size x \<or> whole > ps_max_frame_size q
             then (if whole > ps_max_frame_size q then SALTS_EMSGSIZE else SALTS_EPROTO, None)
             else
               (case flow_protocol_metadata_finalize q request DIRECTION_DOWN (sl_metadata x) of
                  Inl rc \<Rightarrow> (rc, None)
                | Inr md \<Rightarrow> (SALTS_OK, Some (x\<lparr>sl_metadata := md\<rparr>)))))"

definition turbo_flow_protocol_reply_slices ::
    "'s protocol option \<Rightarrow> frame_view option \<Rightarrow> status \<Rightarrow> slices_output option \<Rightarrow>
     's protocol option \<times> status \<times> slices_output option" where
  "turbo_flow_protocol_reply_slices p request status output =
     (if p = None \<or> request = None \<or> output = None \<or> sl_size (the output) = ShortSize \<or>
         sl_abi_version (the output) \<noteq> PROTOCOL_ABI_VERSION \<or> sl_segments (the output) = None \<or>
         length (the (sl_segments (the output))) = 0 \<or>
         length (the (sl_segments (the output))) > PROTOCOL_REPLY_VECTOR_MAX_SEGMENTS
      then (p, SALTS_EINVAL, output)
      else if \<exists>s \<in> set (the (sl_segments (the output))).
                ms_buffer s \<noteq> None \<or> ms_offset s \<noteq> None \<or> ms_length s \<noteq> 0
      then (p, SALTS_EBUSY, output)
      else
        (let out1 = (the output)\<lparr>sl_segment_count := 0, sl_data_size := 0,
                      sl_metadata := METADATA_INIT\<rparr>
         in if co_reply_slices (ps_ops (the p)) = None \<or>
               ps_capabilities (the p) AND CAP_PROTOCOL_REPLY = 0
            then (p, SALTS_ENOTSUP, Some out1)
            else
              (case flow_protocol_inspect p request DIRECTION_UP of
                 Inl rc \<Rightarrow> (p, rc, Some out1)
               | Inr request_metadata \<Rightarrow>
                   (case the (co_reply_slices (ps_ops (the p))) (ps_codec_ctx (the p))
                           (ps_protocol_version (the p)) (the request) status out1 of
                      (ctx, result) \<Rightarrow>
                        (let q = (the p)\<lparr>ps_codec_ctx := ctx\<rparr>
                         in case result of
                              Inl rc \<Rightarrow>
                                (Some q, rc, turbo_flow_protocol_frame_slices_output_release (Some out1))
                            | Inr x \<Rightarrow>
                                (case flow_protocol_slices_check q (the request) request_metadata x of
                                   (rc, Some y) \<Rightarrow> (Some q, rc, Some y)
                                 | (rc, None) \<Rightarrow>
                                     (Some q, rc,
                                      turbo_flow_protocol_frame_slices_output_release (Some x))))))))"

definition flow_protocol_command_validate ::
    "'s protocol option \<Rightarrow> command_view option \<Rightarrow> status" where
  "flow_protocol_command_validate p command =
     (case (p, command) of
        (Some q, Some c) \<Rightarrow>
          if cv_size c = ShortSize \<or> cv_abi_version c \<noteq> PROTOCOL_ABI_VERSION \<or>
             \<not> flow_protocol_cstr_segment_valid (cv_device_id c) PROTOCOL_DEVICE_ID_MAX \<or>
             \<not> flow_protocol_cstr_segment_valid (cv_operation c) PROTOCOL_OPERATION_MAX \<or>
             cv_payload c = 0 \<and> length (cv_bytes c) \<noteq> 0 \<or>
             length (cv_bytes c) > ps_max_frame_size q
          then SALTS_EINVAL
          else if cv_resource c \<noteq> None \<and> length (the (cv_resource c)) > PROTOCOL_RESOURCE_MAX
          then SALTS_EMSGSIZE
          else if text_given (cv_correlation_id c) \<and>
                  \<not> flow_protocol_cstr_segment_valid (cv_correlation_id c) PROTOCOL_CORRELATION_MAX
          then SALTS_EINVAL
          else SALTS_OK
      | _ \<Rightarrow> SALTS_EINVAL)"

definition turbo_flow_protocol_encode ::
    "'s protocol option \<Rightarrow> command_view option \<Rightarrow> frame_output option \<Rightarrow>
     status \<times> frame_output option" where
  "turbo_flow_protocol_encode p command output =
     (case flow_protocol_frame_output_validate output of
        (rc, out1) \<Rightarrow>
          if rc \<noteq> SALTS_OK then (rc, out1)
          else if flow_protocol_command_validate p command \<noteq> SALTS_OK
          then (flow_protocol_command_validate p command, out1)
          else if co_encode (ps_ops (the p)) = None \<or>
                  ps_capabilities (the p) AND CAP_COMMAND_ENCODE = 0
          then (SALTS_ENOTSUP, out1)
          else
            (case the (co_encode (ps_ops (the p))) (ps_protocol_version (the p))
                    (the command) (the out1) of
               Inl rc \<Rightarrow> (rc, Some ((the out1)\<lparr>fo_data_size := 0\<rparr>))
             | Inr x \<Rightarrow>
                 (case flow_protocol_generated_frame_validate (the p) (cv_device_id (the command)) x of
                    (rc, x') \<Rightarrow>
                      if rc \<noteq> SALTS_OK then (rc, Some x')
                      else if pm_operation (fo_metadata x') \<noteq> the (cv_operation (the command))
                      then (SALTS_EPROTO,
                            Some (x'\<lparr>fo_data_size := 0, fo_metadata := METADATA_INIT\<rparr>))
                      else (SALTS_OK, Some x'))))"

definition turbo_flow_protocol_get_info ::
    "'s protocol option \<Rightarrow> protocol_info option \<Rightarrow> status \<times> protocol_info option" where
  "turbo_flow_protocol_get_info p out =
     (if p = None \<or> out = None \<or> pi_size (the out) = ShortSize \<or>
         pi_abi_version (the out) \<noteq> PROTOCOL_ABI_VERSION
      then (SALTS_EINVAL, out)
      else if \<not> ps_open (the p) then (SALTS_EBUSY, out)
      else (SALTS_OK,
            Some \<lparr>pi_size = ExactSize, pi_abi_version = PROTOCOL_ABI_VERSION,
                  pi_protocol = ps_protocol (the p), pi_capabilities = ps_capabilities (the p),
                  pi_max_frame_size = ps_max_frame_size (the p), pi_name = ps_name (the p),
                  pi_protocol_version = ps_protocol_version (the p)\<rparr>))"

section \<open>Plugin descriptor\<close>

record 's plugin_descriptor =
  pd_name :: ctext
  pd_protocol :: protocol_kind
  pd_default_version :: ctext
  pd_versions :: "ctext list"
  pd_inspect :: "inspect_fn option"
  pd_reply :: "'s reply_fn option"
  pd_encode :: "encode_fn option"
  pd_inspect_ctx :: 's
  pd_decode_semantic :: "decode_semantic_fn option"
  pd_reply_slices :: "'s reply_slices_fn option"

record 's protocol_service =
  sv_protocol :: protocol_kind
  sv_instance :: "'s protocol option"
  sv_owner :: "'s protocol option"

definition flow_protocol_version_supported :: "'s plugin_descriptor \<Rightarrow> ctext \<Rightarrow> bool" where
  "flow_protocol_version_supported d version = (\<exists>v \<in> set (pd_versions d). version = v)"

definition flow_protocol_plugin_open ::
    "bool \<Rightarrow> 's plugin_descriptor option \<Rightarrow> open_request option \<Rightarrow> 's protocol_service option \<Rightarrow>
     status \<times> 's protocol_service option" where
  "flow_protocol_plugin_open alloc_ok descriptor request service =
     (case (descriptor, request, service) of
        (Some d, Some r, Some s) \<Rightarrow>
          (let version = (if text_given (or_protocol_version r) then the (or_protocol_version r)
                          else pd_default_version d);
               ops = \<lparr>co_size = 56, co_abi_version = PROTOCOL_ABI_VERSION,
                      co_inspect = pd_inspect d, co_reply = pd_reply d, co_encode = pd_encode d,
                      co_decode_semantic = pd_decode_semantic d,
                      co_reply_slices = pd_reply_slices d\<rparr>;
               capabilities =
                 CAP_INGRESS OR CAP_EGRESS OR CAP_RAW_PRESERVE OR
                 (if pd_reply d \<noteq> None then CAP_PROTOCOL_REPLY else 0) OR
                 (if pd_encode d \<noteq> None then CAP_COMMAND_ENCODE else 0) OR
                 (if pd_decode_semantic d \<noteq> None then CAP_SEMANTIC_DECODE else 0)
           in if or_protocol r \<noteq> pd_protocol d then (SALTS_EINVAL, service)
              else if \<not> flow_protocol_version_supported d version then (SALTS_ENOTSUP, service)
              else
                (case turbo_flow_protocol_create alloc_ok request (Some (pd_name d))
                        (Some (pd_default_version d)) capabilities (Some ops) (pd_inspect_ctx d)
                        True of
                   Inl rc \<Rightarrow> (rc, service)
                 | Inr p \<Rightarrow> (SALTS_OK, Some (s\<lparr>sv_protocol := pd_protocol d,
                                          sv_instance := Some p, sv_owner := Some p\<rparr>))))
      | _ \<Rightarrow> (SALTS_EINVAL, service))"

definition flow_protocol_plugin_close ::
    "'s protocol_service option \<Rightarrow> 's protocol_service option" where
  "flow_protocol_plugin_close service =
     (case service of
        None \<Rightarrow> None
      | Some s \<Rightarrow> Some (s\<lparr>sv_instance := None,
                         sv_owner := turbo_flow_protocol_destroy (sv_owner s)\<rparr>))"

section \<open>Bytes of a 16-bit value\<close>

lemma be16_parts [simp]: "be16 (hi8 w) (lo8 w) = w"
  by (rule bit_word_eqI) (auto simp: be16_def hi8_def lo8_def bit_simps)

lemma hi8_be16 [simp]: "hi8 (be16 a b) = a"
  by (rule bit_word_eqI) (auto simp: be16_def hi8_def bit_simps dest: bit_imp_le_length)

lemma lo8_be16 [simp]: "lo8 (be16 a b) = b"
  by (rule bit_word_eqI) (auto simp: be16_def lo8_def bit_simps)

lemma low_nibble_take_bit: "low_nibble b = take_bit 4 b"
  by (simp add: low_nibble_def take_bit_eq_mask mask_eq_exp_minus_1)

lemma low_nibble_bound: "low_nibble b < 16"
  by (simp add: low_nibble_take_bit word_less_nat_alt take_bit_eq_mod unat_mod)

lemma high_nibble_bound: "high_nibble b < 16"
proof -
  have "unat b < 256" using unsigned_less [of b] by simp
  then show ?thesis
    by (simp add: high_nibble_def word_less_nat_alt drop_bit_eq_div unat_div)
qed

lemma nibble_take_bit:
  fixes x :: u8
  assumes "x < 16"
  shows "take_bit 4 x = x"
  using assms
  by (simp add: word_unat_eq_iff word_less_nat_alt take_bit_eq_mod unat_mod)

lemma nibble_bits:
  fixes x :: u8
  shows "x < 16 \<Longrightarrow> bit x n \<Longrightarrow> n < 4"
  by (metis bit_take_bit_iff nibble_take_bit)

lemma high_nibble_join [simp]:
  "hi < 16 \<Longrightarrow> lo < 16 \<Longrightarrow> high_nibble (push_bit 4 hi OR lo) = hi"
  by (rule bit_word_eqI)
    (auto simp: high_nibble_def bit_simps dest: nibble_bits bit_imp_le_length)

lemma low_nibble_join [simp]:
  "lo < 16 \<Longrightarrow> low_nibble (push_bit 4 hi OR lo) = lo"
  by (rule bit_word_eqI) (auto simp: low_nibble_take_bit bit_simps dest: nibble_bits)

lemma nibbles_split: "push_bit 4 (high_nibble b) OR low_nibble b = b"
  by (rule bit_word_eqI) (auto simp: high_nibble_def low_nibble_take_bit bit_simps)

lemma xor_bytes_snoc [simp]: "xor_bytes (d @ [v]) = xor_bytes d XOR v"
  by (simp add: xor_bytes_def)

lemma xor_bytes_Nil [simp]: "xor_bytes [] = 0"
  by (simp add: xor_bytes_def)

lemma xor_bytes_append: "xor_bytes (a @ b) = xor_bytes a XOR xor_bytes b"
proof (induction b rule: rev_induct)
  case (snoc v b)
  have "xor_bytes (a @ b @ [v]) = xor_bytes (a @ b) XOR v"
    using xor_bytes_snoc [of "a @ b" v] by simp
  then show ?case using snoc by (simp add: xor.assoc)
qed simp

lemma xor_bytes_frame: "xor_bytes (h @ b @ [xor_bytes (h @ b)]) = 0"
  using xor_bytes_snoc [of "h @ b" "xor_bytes (h @ b)"] by simp

end
