(* ===== verification/Flow_JTT808.thy ===== *)
theory Flow_JTT808
  imports Flow_Protocol
begin

unbundle bit_operations_syntax

text \<open>
  The JT/T 808 codec: the model of \<open>ingress/protocol/jtt808/flow_protocol_jtt808.c\<close>.

  A frame is \<open>0x7e\<close>, the escaped header, body and checksum, and \<open>0x7e\<close>; the bytes \<open>0x7e\<close> and
  \<open>0x7d\<close> travel as \<open>0x7d 0x02\<close> and \<open>0x7d 0x01\<close>.  The decoder is a single pass over the escaped
  bytes: \<open>jtt808_scan\<close> undoes the escaping and hands each decoded byte to \<open>jtt808_step\<close>, which
  keeps the checksum, the first 21 bytes and, for a semantic decode, the application content.
  The codec context is the serial counter (\<open>None\<close> for a NULL context).
\<close>

section \<open>Serial numbers\<close>

text \<open>The compare-and-exchange loop ends at its first successful exchange, which is one atomic
  step from the value it read.\<close>

definition flow_jtt808_next_serial :: "u32 option \<Rightarrow> u32 option \<times> u16" where
  "flow_jtt808_next_serial counter =
     (case counter of
        None \<Rightarrow> (None, 0)
      | Some current \<Rightarrow>
          (let next = (if current \<ge> 0xffff then 1 else current + 1) in (Some next, ucast next)))"

section \<open>Decoding\<close>

fun unescape_scan :: "u8 list \<Rightarrow> u8 list \<Rightarrow> nat \<Rightarrow> u8 \<Rightarrow> status + u8 list \<times> nat \<times> u8" where
  "unescape_scan [] capture n checksum = Inr (capture, n, checksum)"
| "unescape_scan (b # bs) capture n checksum =
     (if b = 0x7d then
        (case bs of
           [] \<Rightarrow> Inl SALTS_EPROTO
         | e # rest \<Rightarrow>
             if e = 0x01 then unescape_scan rest (capture[n := 0x7d]) (n + 1) (checksum XOR 0x7d)
             else if e = 0x02 then unescape_scan rest (capture[n := 0x7e]) (n + 1) (checksum XOR 0x7e)
             else Inl SALTS_EPROTO)
      else unescape_scan bs (capture[n := b]) (n + 1) (checksum XOR b))"

definition flow_jtt808_unescape :: "frame_view \<Rightarrow> nat \<Rightarrow> status + u8 list \<times> nat \<times> u8" where
  "flow_jtt808_unescape f capture_size =
     (let data = fv_bytes f in
      if length data < 2 \<or> data ! 0 \<noteq> 0x7e \<or> data ! (length data - 1) \<noteq> 0x7e
      then Inl SALTS_EPROTO
      else unescape_scan (butlast (tl data)) (replicate capture_size 0) 0 0)"

fun bcd_digits :: "u8 list \<Rightarrow> status + ctext" where
  "bcd_digits [] = Inr []"
| "bcd_digits (b # bs) =
     (if high_nibble b > 9 \<or> low_nibble b > 9 then Inl SALTS_EPROTO
      else and_then (bcd_digits bs)
             (\<lambda>ds. Inr ((0x30 + high_nibble b) # (0x30 + low_nibble b) # ds)))"

definition flow_jtt808_device_id :: "u8 list \<Rightarrow> nat \<Rightarrow> status + ctext" where
  "flow_jtt808_device_id bcd capacity =
     (if capacity \<le> length bcd * 2 then Inl SALTS_EINVAL else bcd_digits bcd)"

record jtt808_state =
  jd_header :: "u8 list"
  jd_decoded_size :: nat
  jd_header_size :: nat
  jd_base_header_size :: nat
  jd_body_size :: nat
  jd_message_id :: u16
  jd_properties :: u16
  jd_checksum :: u8
  jd_semantic_type :: u32
  jd_header_known :: bool
  jd_semantic :: "semantic_output option"

definition JTT808_MAX_HEADER_SIZE :: nat where "JTT808_MAX_HEADER_SIZE = 21"

definition jtt808_start :: "semantic_output option \<Rightarrow> jtt808_state" where
  "jtt808_start semantic =
     \<lparr>jd_header = replicate JTT808_MAX_HEADER_SIZE 0, jd_decoded_size = 0, jd_header_size = 0,
      jd_base_header_size = 0, jd_body_size = 0, jd_message_id = 0, jd_properties = 0,
      jd_checksum = 0, jd_semantic_type = PROTOCOL_SEMANTIC_TYPE_NONE, jd_header_known = False,
      jd_semantic = semantic\<rparr>"

text \<open>The body of the decoding loop after a byte is unescaped, in the order of the source: the
  checksum and the captured header, the header's sizes once its first four bytes are there, and
  the content of a transparent-data message.\<close>

definition jtt808_capture :: "u8 \<Rightarrow> jtt808_state \<Rightarrow> jtt808_state" where
  "jtt808_capture v st =
     st\<lparr>jd_checksum := jd_checksum st XOR v,
        jd_header := (jd_header st)[jd_decoded_size st := v]\<rparr>"

definition jtt808_read_header :: "jtt808_state \<Rightarrow> status + jtt808_state" where
  "jtt808_read_header st =
     (if \<not> jd_header_known st \<and> jd_decoded_size st = 3 then
        (let h = jd_header st;
             properties = be16 (h ! 2) (h ! 3);
             base = (if properties AND 0x4000 \<noteq> 0 then 17 else 12);
             size = base + (if properties AND 0x2000 \<noteq> 0 then 4 else 0)
         in if size > length h then Inl SALTS_EPROTO
            else Inr (st\<lparr>jd_message_id := be16 (h ! 0) (h ! 1), jd_properties := properties,
                         jd_body_size := unat (properties AND 0x03ff),
                         jd_base_header_size := base, jd_header_size := size,
                         jd_header_known := True\<rparr>))
      else Inr st)"

definition jtt808_content :: "u8 \<Rightarrow> jtt808_state \<Rightarrow> status + jtt808_state" where
  "jtt808_content v st =
     (case jd_semantic st of
        None \<Rightarrow> Inr st
      | Some s \<Rightarrow>
          if jd_header_known st \<and> jd_decoded_size st \<ge> jd_header_size st \<and>
             jd_decoded_size st < jd_header_size st + jd_body_size st \<and>
             jd_message_id st = 0x0900
          then
            (let body_index = jd_decoded_size st - jd_header_size st in
             if body_index = 0 then Inr (st\<lparr>jd_semantic_type := ucast v\<rparr>)
             else if body_index - 1 \<ge> length (so_bytes s) then Inl SALTS_EMSGSIZE
             else if so_data s = 0 then Inl SALTS_EINVAL
             else Inr (st\<lparr>jd_semantic :=
                    Some (s\<lparr>so_bytes := (so_bytes s)[body_index - 1 := v]\<rparr>)\<rparr>))
          else Inr st)"

definition jtt808_step :: "u8 \<Rightarrow> jtt808_state \<Rightarrow> status + jtt808_state" where
  "jtt808_step v st =
     and_then (jtt808_read_header (jtt808_capture v st)) (\<lambda>s1.
     and_then (jtt808_content v s1) (\<lambda>s2.
       Inr (s2\<lparr>jd_decoded_size := jd_decoded_size s2 + 1\<rparr>)))"

fun jtt808_scan :: "u8 list \<Rightarrow> jtt808_state \<Rightarrow> status + jtt808_state" where
  "jtt808_scan [] st = Inr st"
| "jtt808_scan (b # bs) st =
     (if b = 0x7d then
        (case bs of
           [] \<Rightarrow> Inl SALTS_EPROTO
         | e # rest \<Rightarrow>
             if e = 0x01 then and_then (jtt808_step 0x7d st) (jtt808_scan rest)
             else if e = 0x02 then and_then (jtt808_step 0x7e st) (jtt808_scan rest)
             else Inl SALTS_EPROTO)
      else and_then (jtt808_step b st) (jtt808_scan bs))"

definition jtt808_operation :: "u16 \<Rightarrow> string option" where
  "jtt808_operation message_id =
     (if message_id = 0x0001 then Some ''terminal-ack''
      else if message_id = 0x0100 then Some ''register''
      else if message_id = 0x0102 then Some ''authenticate''
      else if message_id = 0x0200 then Some ''location''
      else if message_id = 0x0201 then Some ''location-query-response''
      else if message_id = 0x0704 then Some ''batch-location''
      else if message_id = 0x0900 then Some ''transparent-data''
      else if message_id = 0x8001 then Some ''platform-ack''
      else if message_id = 0x8100 then Some ''register-response''
      else if message_id = 0x8103 then Some ''set-parameters''
      else if message_id = 0x8104 then Some ''query-parameters''
      else if message_id = 0x8105 then Some ''terminal-control''
      else if message_id = 0x8201 then Some ''location-query''
      else if message_id = 0x8300 then Some ''text''
      else if message_id = 0x8400 then Some ''call''
      else if message_id = 0x8900 then Some ''platform-transparent-data''
      else None)"

text \<open>The checks on the header once all bytes are decoded: the device id and the serial.\<close>

definition jtt808_identity :: "jtt808_state \<Rightarrow> status + ctext \<times> u64" where
  "jtt808_identity st =
     (let h = jd_header st; base = jd_base_header_size st; v2019 = (jd_properties st AND 0x4000 \<noteq> 0);
          phone_offset = (if v2019 then 5 else 4); phone_size = (if v2019 then 10 else 6);
          serial_offset = (if v2019 then 15 else 10);
          package_total = be16 (h ! base) (h ! (base + 1));
          package_index = be16 (h ! (base + 2)) (h ! (base + 3))
      in if v2019 \<and> (base \<noteq> 17 \<or> h ! 4 \<noteq> 1) then Inl SALTS_EPROTO
         else if \<not> v2019 \<and> base \<noteq> 12 then Inl SALTS_EPROTO
         else if jd_properties st AND 0x2000 \<noteq> 0 \<and>
                 (package_total = 0 \<or> package_index = 0 \<or> package_index > package_total)
         then Inl SALTS_EPROTO
         else if jd_properties st AND 0x2000 \<noteq> 0 \<and> jd_semantic st \<noteq> None then Inl SALTS_ENOTSUP
         else and_then
           (flow_jtt808_device_id (take phone_size (drop phone_offset h)) (PROTOCOL_DEVICE_ID_MAX + 1))
           (\<lambda>dev. Inr (dev, ucast (be16 (h ! serial_offset) (h ! (serial_offset + 1))))))"

definition jtt808_publish_content :: "jtt808_state \<Rightarrow> status + semantic_output option" where
  "jtt808_publish_content st =
     (case jd_semantic st of
        None \<Rightarrow> Inr None
      | Some s \<Rightarrow>
          if jd_message_id st \<noteq> 0x0900 then Inl SALTS_ENOTSUP
          else if jd_body_size st = 0 then Inl SALTS_EPROTO
          else Inr (Some (s\<lparr>so_semantic_type := jd_semantic_type st,
                  so_data_size := jd_body_size st - 1,
                  so_media_type := (if jd_semantic_type st = 1 then ctext_of ''application/json'' else [])\<rparr>)))"

definition flow_jtt808_decode_ingress ::
    "frame_view \<Rightarrow> protocol_metadata \<Rightarrow> semantic_output option \<Rightarrow>
     status + protocol_metadata \<times> semantic_output option" where
  "flow_jtt808_decode_ingress f metadata semantic =
     (let data = fv_bytes f in
      if fv_data f = 0 \<or> length data < 2 \<or> data ! 0 \<noteq> 0x7e \<or> data ! (length data - 1) \<noteq> 0x7e
      then Inl SALTS_EPROTO
      else if (case semantic of None \<Rightarrow> False | Some s \<Rightarrow>
                 so_size s = ShortSize \<or> so_abi_version s \<noteq> PROTOCOL_ABI_VERSION \<or>
                 so_data s = 0 \<and> length (so_bytes s) \<noteq> 0)
      then Inl SALTS_EINVAL
      else and_then (jtt808_scan (butlast (tl data)) (jtt808_start semantic)) (\<lambda>st.
        if \<not> jd_header_known st \<or> jd_checksum st \<noteq> 0 \<or>
           jd_body_size st > unat SIZE_MAX - jd_header_size st - 1 \<or>
           jd_decoded_size st \<noteq> jd_header_size st + jd_body_size st + 1
        then Inl SALTS_EPROTO
        else and_then (jtt808_identity st) (\<lambda>(dev, serial).
             and_then (jtt808_publish_content st) (\<lambda>content.
             and_then (set_operation (jtt808_operation (jd_message_id st))
                (ctext_of ''message-'' @ hex4 (jd_message_id st))
                (metadata\<lparr>pm_device_id := dev, pm_message_type := ucast (jd_message_id st),
                          pm_sequence := serial\<rparr>)) (\<lambda>m.
               Inr (m, content))))))"

definition flow_jtt808_inspect :: inspect_fn where
  "flow_jtt808_inspect configured_version f metadata =
     and_then (flow_jtt808_decode_ingress f metadata None) (\<lambda>(m, _). Inr m)"

definition flow_jtt808_decode_semantic :: decode_semantic_fn where
  "flow_jtt808_decode_semantic configured_version f metadata semantic =
     and_then (flow_jtt808_decode_ingress f metadata (Some semantic)) (\<lambda>(m, s). Inr (m, the s))"

section \<open>Encoding\<close>

fun bcd_write :: "ctext \<Rightarrow> status + u8 list" where
  "bcd_write [] = Inr []"
| "bcd_write [x] = Inl SALTS_EINVAL"
| "bcd_write (x # y # ds) =
     (if x < 0x30 \<or> x > 0x39 \<or> y < 0x30 \<or> y > 0x39 then Inl SALTS_EINVAL
      else and_then (bcd_write ds) (\<lambda>bs. Inr ((push_bit 4 (x - 0x30) OR (y - 0x30)) # bs)))"

definition flow_jtt808_frame_header ::
    "u16 \<Rightarrow> ctext option \<Rightarrow> bool \<Rightarrow> u16 \<Rightarrow> nat \<Rightarrow> nat \<Rightarrow> status + u8 list" where
  "flow_jtt808_frame_header message_id device_id version_2019 serial body_size header_capacity =
     (let header_size = (if version_2019 then 17 else 12) in
      if device_id = None \<or> serial = 0 \<or> header_capacity < header_size then Inl SALTS_EINVAL
      else if body_size > 0x03ff \<or> length (the device_id) \<noteq> (if version_2019 then 20 else 12)
      then Inl SALTS_EMSGSIZE
      else
        (let properties = (of_nat body_size OR (if version_2019 then 0x4000 else 0)) :: u16
         in and_then (bcd_write (the device_id)) (\<lambda>bcd.
              Inr ([hi8 message_id, lo8 message_id, hi8 properties, lo8 properties] @
                   (if version_2019 then [1] else []) @ bcd @ [hi8 serial, lo8 serial]))))"

definition escape_byte :: "u8 \<Rightarrow> u8 list" where
  "escape_byte v = (if v = 0x7e then [0x7d, 0x02] else if v = 0x7d then [0x7d, 0x01] else [v])"

fun flow_jtt808_escaped_size :: "u8 list \<Rightarrow> nat" where
  "flow_jtt808_escaped_size [] = 0"
| "flow_jtt808_escaped_size (v # vs) =
     (if v = 0x7e \<or> v = 0x7d then 2 else 1) + flow_jtt808_escaped_size vs"

fun flow_jtt808_escape_write :: "u8 list \<Rightarrow> nat \<Rightarrow> status + u8 list" where
  "flow_jtt808_escape_write [] capacity = Inr []"
| "flow_jtt808_escape_write (v # vs) capacity =
     (let needed = (if v = 0x7e \<or> v = 0x7d then 2 else 1) in
      if needed > capacity then Inl SALTS_EMSGSIZE
      else and_then (flow_jtt808_escape_write vs (capacity - needed))
             (\<lambda>out. Inr (escape_byte v @ out)))"

definition flow_jtt808_frame_write ::
    "u16 \<Rightarrow> ctext option \<Rightarrow> bool \<Rightarrow> u16 \<Rightarrow> u64 \<Rightarrow> u8 list \<Rightarrow> frame_output \<Rightarrow>
     status + frame_output" where
  "flow_jtt808_frame_write message_id device_id version_2019 serial body body_bytes output =
     (if body = 0 \<and> length body_bytes \<noteq> 0 \<or> fo_data output = 0 then Inl SALTS_EINVAL
      else and_then
        (flow_jtt808_frame_header message_id device_id version_2019 serial (length body_bytes) 17)
        (\<lambda>header.
          (let checksum = xor_bytes (header @ body_bytes);
               escaped_header = flow_jtt808_escaped_size header;
               escaped_body = flow_jtt808_escaped_size body_bytes;
               escaped_checksum = flow_jtt808_escaped_size [checksum];
               capacity = length (fo_bytes output)
           in if escaped_header = unat SIZE_MAX \<or> escaped_body = unat SIZE_MAX \<or>
                 escaped_checksum = unat SIZE_MAX \<or>
                 escaped_header > unat SIZE_MAX - escaped_body \<or>
                 escaped_header + escaped_body > unat SIZE_MAX - escaped_checksum \<or>
                 escaped_header + escaped_body + escaped_checksum > unat SIZE_MAX - 2
              then Inl SALTS_ERANGE
              else if escaped_header + escaped_body + escaped_checksum + 2 > capacity
              then Inl SALTS_EMSGSIZE
              else
                and_then (flow_jtt808_escape_write header (capacity - 1)) (\<lambda>a.
                and_then (if body_bytes \<noteq> []
                          then flow_jtt808_escape_write body_bytes (capacity - (1 + length a))
                          else Inr []) (\<lambda>b.
                and_then (flow_jtt808_escape_write [checksum]
                            (capacity - (1 + length a + length b))) (\<lambda>c.
                  Inr (frame_put ([0x7e] @ a @ b @ c @ [0x7e]) output)))))))"

text \<open>The loop that checks the slices and adds up their lengths.\<close>

fun slices_sum :: "nat \<Rightarrow> mem_slice list \<Rightarrow> status + nat" where
  "slices_sum whole [] = Inr whole"
| "slices_sum whole (s # ss) =
     (if ms_buffer s = None \<or> ms_length s = 0 then Inl SALTS_EPROTO
      else if whole > unat SIZE_MAX - ms_length s then Inl SALTS_ERANGE
      else slices_sum (whole + ms_length s) ss)"

definition flow_jtt808_frame_slices_write ::
    "mem_lib \<Rightarrow> u16 \<Rightarrow> ctext option \<Rightarrow> bool \<Rightarrow> u16 \<Rightarrow> u64 \<Rightarrow> u8 list \<Rightarrow> slices_output \<Rightarrow>
     status + slices_output" where
  "flow_jtt808_frame_slices_write lib message_id device_id version_2019 serial body body_bytes output =
     (if body = 0 \<and> length body_bytes \<noteq> 0 \<or> sl_segments output = None then Inl SALTS_EINVAL
      else and_then
        (flow_jtt808_frame_header message_id device_id version_2019 serial (length body_bytes) 17)
        (\<lambda>header.
          (let checksum = xor_bytes (header @ body_bytes);
               escaped_header = flow_jtt808_escaped_size header;
               escaped_body = flow_jtt808_escaped_size body_bytes;
               escaped_checksum = flow_jtt808_escaped_size [checksum]
           in if escaped_header = unat SIZE_MAX \<or> escaped_body = unat SIZE_MAX \<or>
                 escaped_checksum = unat SIZE_MAX
              then Inl SALTS_ERANGE
              else if length (the (sl_segments output)) < (if body_bytes \<noteq> [] then 5 else 4)
              then Inl SALTS_ENOSPC
              else if \<not> ml_get lib 0 2 \<or> \<not> ml_get lib 1 escaped_header \<or>
                      body_bytes \<noteq> [] \<and> \<not> ml_get lib 2 escaped_body \<or>
                      \<not> ml_get lib 3 escaped_checksum
              then Inl SALTS_ENOMEM
              else
                and_then (flow_jtt808_escape_write header escaped_header) (\<lambda>a.
                if length a \<noteq> escaped_header then Inl SALTS_EPROTO else
                and_then (if body_bytes \<noteq> []
                          then flow_jtt808_escape_write body_bytes escaped_body
                          else Inr []) (\<lambda>b.
                if body_bytes \<noteq> [] \<and> length b \<noteq> escaped_body then Inl SALTS_EPROTO else
                and_then (flow_jtt808_escape_write [checksum] escaped_checksum) (\<lambda>c.
                if length c \<noteq> escaped_checksum then Inl SALTS_EPROTO else
                  (let slices =
                     [ml_slice lib [0x7e, 0x7e] 0 1, ml_slice lib a 0 escaped_header] @
                     (if body_bytes \<noteq> [] then [ml_slice lib b 0 escaped_body] else []) @
                     [ml_slice lib c 0 escaped_checksum, ml_slice lib [0x7e, 0x7e] 1 1]
                   in and_then (slices_sum 0 slices) (\<lambda>whole.
                        Inr (slices_put slices output)))))))))"

definition flow_jtt808_reply_prepare ::
    "u32 option \<Rightarrow> frame_view \<Rightarrow> status \<Rightarrow>
     u32 option \<times> (status + ctext \<times> bool \<times> u8 list \<times> u16)" where
  "flow_jtt808_reply_prepare ctx request status =
     (if ctx = None then (ctx, Inl SALTS_EINVAL)
      else
        (case flow_jtt808_unescape request 32 of
           Inl rc \<Rightarrow> (ctx, Inl SALTS_EPROTO)
         | Inr (header, decoded_size, checksum) \<Rightarrow>
             if checksum \<noteq> 0 \<or> decoded_size < 5 then (ctx, Inl SALTS_EPROTO)
             else
               (let properties = be16 (header ! 2) (header ! 3);
                    version_2019 = (properties AND 0x4000 \<noteq> 0);
                    phone_offset = (if version_2019 then 5 else 4);
                    phone_size = (if version_2019 then 10 else 6);
                    serial_offset = (if version_2019 then 15 else 10)
                in case flow_jtt808_device_id (take phone_size (drop phone_offset header)) 21 of
                     Inl rc \<Rightarrow> (ctx, Inl rc)
                   | Inr device_id \<Rightarrow>
                       (case flow_jtt808_next_serial ctx of
                          (ctx', next) \<Rightarrow>
                            if next = 0 then (ctx', Inl SALTS_ERANGE)
                            else (ctx', Inr (device_id, version_2019,
                                   [header ! serial_offset, header ! (serial_offset + 1),
                                    header ! 0, header ! 1,
                                    if status = SALTS_OK then 0
                                    else if status = SALTS_ENOTSUP then 3 else 1], next))))))"

text \<open>The reply body is a local array: any non-NULL address stands for it.\<close>

definition flow_jtt808_reply :: "u32 option reply_fn" where
  "flow_jtt808_reply ctx configured_version request status output =
     (case flow_jtt808_reply_prepare ctx request status of
        (ctx', Inl rc) \<Rightarrow> (ctx', Inl rc)
      | (ctx', Inr (device_id, version_2019, body, next)) \<Rightarrow>
          (ctx', flow_jtt808_frame_write 0x8001 (Some device_id) version_2019 next 1 body output))"

definition flow_jtt808_reply_slices :: "mem_lib \<Rightarrow> u32 option reply_slices_fn" where
  "flow_jtt808_reply_slices lib ctx configured_version request status output =
     (case flow_jtt808_reply_prepare ctx request status of
        (ctx', Inl rc) \<Rightarrow> (ctx', Inl rc)
      | (ctx', Inr (device_id, version_2019, body, next)) \<Rightarrow>
          (ctx', and_then
             (flow_jtt808_frame_slices_write lib 0x8001 (Some device_id) version_2019 next 1 body output)
             (\<lambda>x. Inr (x\<lparr>sl_metadata := (sl_metadata x)\<lparr>pm_message_type := 0x8001,
                     pm_sequence := ucast next, pm_device_id := device_id,
                     pm_operation := ctext_of ''platform-ack''\<rparr>\<rparr>))))"

definition flow_jtt808_message_id :: "ctext option \<Rightarrow> status + u16" where
  "flow_jtt808_message_id operation =
     (if operation = None then Inl SALTS_EINVAL
      else if the operation = ctext_of ''platform-ack'' then Inr 0x8001
      else if the operation = ctext_of ''register-response'' then Inr 0x8100
      else if the operation = ctext_of ''set-parameters'' then Inr 0x8103
      else if the operation = ctext_of ''query-parameters'' then Inr 0x8104
      else if the operation = ctext_of ''terminal-control'' then Inr 0x8105
      else if the operation = ctext_of ''location-query'' then Inr 0x8201
      else if the operation = ctext_of ''text'' then Inr 0x8300
      else if the operation = ctext_of ''call'' then Inr 0x8400
      else if the operation = ctext_of ''platform-transparent-data'' then Inr 0x8900
      else Inl SALTS_ENOTSUP)"

definition flow_jtt808_encode :: encode_fn where
  "flow_jtt808_encode configured_version command output =
     (if cv_sequence command = 0 \<or> cv_sequence command > 0xffff then Inl SALTS_EINVAL
      else and_then (flow_jtt808_message_id (cv_operation command)) (\<lambda>message_id.
        flow_jtt808_frame_write message_id (cv_device_id command) True (ucast (cv_sequence command))
          (cv_payload command) (cv_bytes command) output))"

definition FLOW_JTT808_DESCRIPTOR :: "mem_lib \<Rightarrow> u32 option plugin_descriptor" where
  "FLOW_JTT808_DESCRIPTOR lib =
     \<lparr>pd_name = ctext_of ''jtt808'', pd_protocol = PROTOCOL_JTT_808,
      pd_default_version = ctext_of ''2019-A1'', pd_versions = [ctext_of ''2019-A1''],
      pd_inspect = Some flow_jtt808_inspect, pd_reply = Some flow_jtt808_reply,
      pd_encode = Some flow_jtt808_encode, pd_inspect_ctx = Some 1,
      pd_decode_semantic = Some flow_jtt808_decode_semantic,
      pd_reply_slices = Some (flow_jtt808_reply_slices lib)\<rparr>"

end
