(* ===== verification/Flow_Protocol_Contract.thy ===== *)
theory Flow_Protocol_Contract
  imports Flow_Protocol
begin

unbundle bit_operations_syntax

text \<open>
  What the protocol host guarantees for any codec, and the contract a codec keeps.

  \<open>protocol_wf\<close> is the invariant of an opened protocol instance.  The locale \<open>protocol_codec\<close> is
  the codec interface: the metadata of an accepted frame is one the host can publish, a reply to
  an accepted request is a frame of the same device, and an encoded command is a frame of the
  command's operation.  In it the host's \<open>reply\<close> and \<open>encode\<close> are shown never to reject what the
  codec produced, except for the instance's frame limit.
\<close>

section \<open>Opened instances\<close>

definition segment_ok :: "ctext \<Rightarrow> nat \<Rightarrow> bool" where
  "segment_ok t n \<longleftrightarrow> flow_protocol_cstr_segment_valid (Some t) n"

definition protocol_wf :: "'s protocol \<Rightarrow> bool" where
  "protocol_wf p \<longleftrightarrow>
     ps_open p \<and> flow_protocol_kind_valid (ps_protocol p) \<and> 0 < ps_max_frame_size p \<and>
     segment_ok (ps_name p) PROTOCOL_OPERATION_MAX \<and>
     ps_protocol_version p \<noteq> [] \<and> length (ps_protocol_version p) \<le> PROTOCOL_VERSION_MAX \<and>
     co_inspect (ps_ops p) \<noteq> None \<and>
     (co_decode_semantic (ps_ops p) \<noteq> None \<longleftrightarrow> ps_capabilities p AND CAP_SEMANTIC_DECODE \<noteq> 0)"

lemma text_copy_Inr:
  "flow_protocol_text_copy n t = Inr u \<longleftrightarrow> t = Some u \<and> u \<noteq> [] \<and> length u < n"
  by (cases t) (auto simp: flow_protocol_text_copy_def)

lemma create_wf:
  assumes "turbo_flow_protocol_create alloc r name version caps ops ctx out = Inr p"
  shows "protocol_wf p"
proof -
  obtain r1 o1 where r1: "r = Some r1" "ops = Some o1"
    using assms by (auto simp: turbo_flow_protocol_create_def split: option.splits)
  show ?thesis
    using assms unfolding turbo_flow_protocol_create_def Let_def r1 prod.case option.case
    by (simp only: guards text_copy_Inr Inr_inject)
      (auto simp: protocol_wf_def segment_ok_def protocol_limits split: if_splits)
qed

text \<open>The instance changes only in the codec's context.\<close>

lemma reply_instance:
  "turbo_flow_protocol_reply (Some p) f st x = (q, rc, y) \<Longrightarrow> \<exists>ctx. q = Some (p\<lparr>ps_codec_ctx := ctx\<rparr>)"
  by (cases p)
    (auto simp: turbo_flow_protocol_reply_def Let_def split: if_splits prod.splits sum.splits)

lemma reply_slices_instance:
  "turbo_flow_protocol_reply_slices (Some p) f st x = (q, rc, y) \<Longrightarrow>
     \<exists>ctx. q = Some (p\<lparr>ps_codec_ctx := ctx\<rparr>)"
  by (cases p)
    (auto simp: turbo_flow_protocol_reply_slices_def Let_def
      split: if_splits prod.splits sum.splits option.splits)

lemma protocol_wf_ctx [simp]: "protocol_wf (p\<lparr>ps_codec_ctx := ctx\<rparr>) = protocol_wf p"
  by (simp add: protocol_wf_def)

text \<open>\<open>Inl\<close> stands for a status other than \<open>SALTS_OK\<close>: the callbacks of a table report so.\<close>

definition reports :: "status + 'a \<Rightarrow> bool" where
  "reports r \<longleftrightarrow> r \<noteq> Inl SALTS_OK"

lemma reports_simps [simp]:
  "reports (Inr a)" "reports (Inl rc) \<longleftrightarrow> rc \<noteq> SALTS_OK"
  "reports (if c then r else r') \<longleftrightarrow> (if c then reports r else reports r')"
  by (simp_all add: reports_def)

lemma reports_and_then [intro]:
  "reports r \<Longrightarrow> (\<And>a. r = Inr a \<Longrightarrow> reports (f a)) \<Longrightarrow> reports (and_then r f)"
  by (cases r) (simp_all add: reports_def)

definition codec_reports :: "'s codec_ops \<Rightarrow> bool" where
  "codec_reports o1 \<longleftrightarrow>
     (\<forall>g. co_inspect o1 = Some g \<longrightarrow> (\<forall>v f m. reports (g v f m))) \<and>
     (\<forall>g. co_reply o1 = Some g \<longrightarrow> (\<forall>s v f st x. reports (snd (g s v f st x)))) \<and>
     (\<forall>g. co_encode o1 = Some g \<longrightarrow> (\<forall>v c x. reports (g v c x))) \<and>
     (\<forall>g. co_decode_semantic o1 = Some g \<longrightarrow> (\<forall>v f m s. reports (g v f m s))) \<and>
     (\<forall>g. co_reply_slices o1 = Some g \<longrightarrow> (\<forall>s v f st x. reports (snd (g s v f st x))))"

section \<open>Metadata the host can publish\<close>

definition metadata_sound :: "protocol_metadata \<Rightarrow> bool" where
  "metadata_sound m \<longleftrightarrow>
     pm_size m = ExactSize \<and> pm_abi_version m = PROTOCOL_ABI_VERSION \<and>
     segment_ok (pm_operation m) PROTOCOL_OPERATION_MAX \<and>
     (pm_device_id m = [] \<or> segment_ok (pm_device_id m) PROTOCOL_DEVICE_ID_MAX) \<and>
     length (pm_correlation_id m) \<le> PROTOCOL_CORRELATION_MAX"

lemma segment_ok_nonempty: "segment_ok t n \<Longrightarrow> t \<noteq> []"
  by (simp add: segment_ok_def flow_protocol_cstr_segment_valid_def flow_protocol_segment_valid_def)

lemma segment_ok_length: "segment_ok t n \<Longrightarrow> length t \<le> n"
  by (simp add: segment_ok_def flow_protocol_cstr_segment_valid_def)

text \<open>The parts of the metadata the host fills in.\<close>

definition host_filled ::
    "'s protocol \<Rightarrow> protocol_direction \<Rightarrow> ctext \<Rightarrow> protocol_metadata \<Rightarrow> protocol_metadata" where
  "host_filled p direction dev m =
     m\<lparr>pm_device_id := dev, pm_protocol := ps_protocol p, pm_direction := direction,
       pm_protocol_version := ps_protocol_version p\<rparr>"

lemma finalize_sound:
  assumes "protocol_wf p" and "metadata_sound m" and "segment_ok dev PROTOCOL_DEVICE_ID_MAX"
    and "pm_device_id m = [] \<longrightarrow> fv_device_id f = Some dev"
    and "pm_device_id m \<noteq> [] \<longrightarrow> pm_device_id m = dev \<and>
           (text_given (fv_device_id f) \<longrightarrow> fv_device_id f = Some dev)"
  shows "flow_protocol_metadata_finalize p f direction m = Inr (host_filled p direction dev m)"
proof -
  have dev: "metadata_device f m = Inr dev"
    using assms(3-5) segment_ok_nonempty [OF assms(3)] segment_ok_length [OF assms(3)]
    by (auto simp: metadata_device_def text_given_def text_copy_Inr)
  have v: "flow_protocol_text_copy (PROTOCOL_VERSION_MAX + 1) (Some (ps_protocol_version p)) =
      Inr (ps_protocol_version p)"
    using assms(1) by (simp add: text_copy_Inr protocol_wf_def)
  show ?thesis
    using assms(2,3)
    unfolding flow_protocol_metadata_finalize_def dev and_then.simps v
    by (simp add: metadata_sound_def segment_ok_def host_filled_def)
qed

lemma finalize_Inr:
  assumes "flow_protocol_metadata_finalize p f direction m = Inr m'" and "protocol_wf p"
  shows "\<exists>dev. segment_ok dev PROTOCOL_DEVICE_ID_MAX \<and> m' = host_filled p direction dev m \<and>
    (pm_device_id m = [] \<longrightarrow> fv_device_id f = Some dev) \<and>
    (pm_device_id m \<noteq> [] \<longrightarrow> pm_device_id m = dev \<and>
       (text_given (fv_device_id f) \<longrightarrow> fv_device_id f = Some dev))"
proof -
  obtain dev v where dev: "metadata_device f m = Inr dev" "segment_ok dev PROTOCOL_DEVICE_ID_MAX"
    and v: "flow_protocol_text_copy (PROTOCOL_VERSION_MAX + 1) (Some (ps_protocol_version p)) = Inr v"
    and m': "m' = m\<lparr>pm_device_id := dev, pm_protocol := ps_protocol p, pm_direction := direction,
       pm_protocol_version := v\<rparr>"
    using assms(1) unfolding flow_protocol_metadata_finalize_def segment_ok_def
    by (simp only: guards not_not Inr_inject) blast
  have "v = ps_protocol_version p" using v by (simp add: text_copy_Inr)
  moreover have "(pm_device_id m = [] \<longrightarrow> fv_device_id f = Some dev) \<and>
    (pm_device_id m \<noteq> [] \<longrightarrow> pm_device_id m = dev \<and>
       (text_given (fv_device_id f) \<longrightarrow> fv_device_id f = Some dev))"
    using dev(1) by (auto simp: metadata_device_def text_copy_Inr text_given_def split: if_splits option.splits)
  ultimately show ?thesis using dev(2) m' by (auto simp: host_filled_def)
qed

lemma inspect_Inr:
  "flow_protocol_inspect (Some p) (Some f) direction = Inr m \<longleftrightarrow>
     flow_protocol_frame_validate (Some p) (Some f) = SALTS_OK \<and> ps_open p \<and>
     (\<exists>i. the (co_inspect (ps_ops p)) (ps_protocol_version p) f METADATA_INIT = Inr i \<and>
          flow_protocol_metadata_finalize p f direction i = Inr m)"
  unfolding flow_protocol_inspect_def option.sel by (simp only: guards not_not)

lemma frame_validate_OK:
  "flow_protocol_frame_validate (Some p) (Some f) = SALTS_OK \<longleftrightarrow>
     fv_size f \<noteq> ShortSize \<and> fv_abi_version f = PROTOCOL_ABI_VERSION \<and> fv_data f \<noteq> 0 \<and>
     fv_bytes f \<noteq> [] \<and> length (fv_bytes f) \<le> ps_max_frame_size p \<and>
     (text_given (fv_protocol_version f) \<longrightarrow>
        the (fv_protocol_version f) = ps_protocol_version p) \<and>
     (text_given (fv_device_id f) \<longrightarrow>
        flow_protocol_cstr_segment_valid (fv_device_id f) PROTOCOL_DEVICE_ID_MAX)"
  unfolding flow_protocol_frame_validate_def prod.case option.case
  by (auto simp: guards)

lemma reports_if: "reports r \<Longrightarrow> reports r' \<Longrightarrow> reports (if c then r else r')"
  by simp

lemma reports_set_operation: "reports (set_operation name t m)"
  unfolding set_operation_def flow_protocol_metadata_text_def flow_protocol_metadata_text_n_def
    flow_protocol_metadata_format_def
  by (auto intro!: reports_and_then split: option.splits)

section \<open>Metadata\<close>

definition plain :: "u8 \<Rightarrow> bool" where
  "plain c \<longleftrightarrow> 0x20 < c \<and> c < 0x7f \<and> c \<noteq> 0x2f \<and> c \<noteq> 0x2b \<and> c \<noteq> 0x23"

lemma segment_ok_iff: "segment_ok t n \<longleftrightarrow> t \<noteq> [] \<and> length t \<le> n \<and> (\<forall>c \<in> set t. plain c)"
  by (auto simp: segment_ok_def flow_protocol_cstr_segment_valid_def flow_protocol_segment_valid_def
      not_le plain_def)

lemma plain_nat:
  "plain c \<longleftrightarrow> 32 < unat c \<and> unat c < 127 \<and> unat c \<noteq> 47 \<and> unat c \<noteq> 43 \<and> unat c \<noteq> 35"
  by (simp add: plain_def word_less_nat_alt word_unat_eq_iff)

lemma plain_digit:
  assumes "x \<le> 9"
  shows "plain (0x30 + x)"
proof -
  have "unat x \<le> 9" using assms by (simp add: word_le_nat_alt)
  then show ?thesis by (simp add: plain_nat unat_word_ariths)
qed

lemma plain_hex_digit:
  assumes "x < 16"
  shows "plain (hex_digit x)"
proof -
  have "unat x < 16" using assms by (simp add: word_less_nat_alt)
  then show ?thesis
    by (auto simp: hex_digit_def plain_nat unat_word_ariths word_less_nat_alt)
qed

lemma plain_hex2: "c \<in> set (hex2 b) \<Longrightarrow> plain c"
  by (auto simp: hex2_def intro!: plain_hex_digit high_nibble_bound low_nibble_bound)

lemma plain_hex4: "c \<in> set (hex4 w) \<Longrightarrow> plain c"
  by (auto simp: hex4_def intro: plain_hex2)

lemma length_hex [simp]: "length (hex2 b) = 2" "length (hex4 w) = 4"
  by (simp_all add: hex2_def hex4_def)

text \<open>A constant of the sources, as an operation name.\<close>

definition name_ok :: "string \<Rightarrow> bool" where
  "name_ok s \<longleftrightarrow> s \<noteq> [] \<and> length s \<le> 63 \<and> (\<forall>c \<in> set (ctext_of s). plain c)"

lemma plain_nonzero: "plain c \<Longrightarrow> c \<noteq> 0"
  by (auto simp: plain_def)

lemma length_ctext_of [simp]: "length (ctext_of s) = length s"
  by (simp add: ctext_of_def)

lemma set_operation_name:
  assumes "name_ok s"
  shows "set_operation (Some s) t m = Inr (m\<lparr>pm_operation := ctext_of s\<rparr>)"
proof -
  have "0 \<notin> set (ctext_of s)" using assms plain_nonzero by (auto simp: name_ok_def)
  then show ?thesis
    using assms by (simp add: set_operation_def flow_protocol_metadata_text_def
        flow_protocol_metadata_text_n_def protocol_limits name_ok_def)
qed

lemma set_operation_format:
  "t \<noteq> [] \<Longrightarrow> length t \<le> 63 \<Longrightarrow> set_operation None t m = Inr (m\<lparr>pm_operation := t\<rparr>)"
  by (simp add: set_operation_def flow_protocol_metadata_format_def protocol_limits)

text \<open>A codec's operation table: every name in it is a valid operation.\<close>

lemma set_operation_sound:
  assumes "set_operation name t m = Inr m'" and "\<And>s. name = Some s \<Longrightarrow> name_ok s"
    and "segment_ok t PROTOCOL_OPERATION_MAX"
  shows "\<exists>oper. m' = m\<lparr>pm_operation := oper\<rparr> \<and> segment_ok oper PROTOCOL_OPERATION_MAX"
proof (cases name)
  case None
  then have "m' = m\<lparr>pm_operation := t\<rparr>"
    using assms(1,3) set_operation_format [of t m] by (simp add: segment_ok_iff protocol_limits)
  then show ?thesis using assms(3) by auto
next
  case (Some s)
  then have "m' = m\<lparr>pm_operation := ctext_of s\<rparr>"
    using assms(1) set_operation_name [OF assms(2) [OF Some]] by simp
  moreover have "segment_ok (ctext_of s) PROTOCOL_OPERATION_MAX"
    using assms(2) [OF Some] by (auto simp: name_ok_def segment_ok_iff protocol_limits ctext_of_def)
  ultimately show ?thesis by auto
qed

lemma segment_ok_format:
  "name_ok s \<Longrightarrow> \<forall>c \<in> set h. plain c \<Longrightarrow> length s + length h \<le> 63 \<Longrightarrow>
     segment_ok (ctext_of s @ h) PROTOCOL_OPERATION_MAX"
  by (auto simp: segment_ok_iff name_ok_def protocol_limits ctext_of_def)

lemma ucast_widen: "ucast (ucast (w :: u16) :: u32) = (ucast w :: u64)"
  by (rule bit_word_eqI) (auto simp: bit_simps dest: bit_imp_le_length)

lemma ucast_narrow:
  fixes w :: u64
  assumes "\<not> w > 0xffff"
  shows "ucast (ucast w :: u16) = w"
proof -
  have "unat w \<le> 0xffff" using assms by (simp add: word_less_nat_alt)
  then show ?thesis by (simp add: word_unat_eq_iff unsigned_ucast_eq take_bit_eq_mod unat_mod)
qed

lemma frame_put_bytes [simp]:
  "take (fo_data_size (frame_put bs x)) (fo_bytes (frame_put bs x)) = bs"
  by (simp add: frame_put_def overwrite_def)

lemma command_validate_OK:
  "flow_protocol_command_validate (Some p) (Some c) = SALTS_OK \<Longrightarrow>
     \<exists>dev oper. cv_device_id c = Some dev \<and> cv_operation c = Some oper \<and>
       segment_ok dev PROTOCOL_DEVICE_ID_MAX \<and> (cv_payload c \<noteq> 0 \<or> cv_bytes c = [])"
  by (auto simp: flow_protocol_command_validate_def guards segment_ok_def
      flow_protocol_cstr_segment_valid_def split: option.splits)

section \<open>Properties of the host\<close>

lemma frame_output_validate_OK:
  "flow_protocol_frame_output_validate (Some x) = (SALTS_OK, y) \<longleftrightarrow>
     fo_size x \<noteq> ShortSize \<and> fo_abi_version x = PROTOCOL_ABI_VERSION \<and> fo_data x \<noteq> 0 \<and>
     fo_bytes x \<noteq> [] \<and> y = Some (x\<lparr>fo_data_size := 0, fo_metadata := METADATA_INIT\<rparr>)"
  by (auto simp: flow_protocol_frame_output_validate_def)

lemma message_output_reset_OK:
  "flow_protocol_message_output_reset (Some m) = (SALTS_OK, y) \<longleftrightarrow>
     mo_size m \<noteq> ShortSize \<and> mo_abi_version m = PROTOCOL_ABI_VERSION \<and> mo_payload m \<noteq> 0 \<and>
     y = Some (m\<lparr>mo_payload_size := 0, mo_metadata := METADATA_INIT\<rparr>)"
  by (auto simp: flow_protocol_message_output_reset_def)

lemma reports_text_copy: "reports (flow_protocol_text_copy n t)"
  by (simp add: flow_protocol_text_copy_def)

lemma reports_device: "reports (metadata_device f m)"
  by (simp add: metadata_device_def reports_text_copy)

lemma reports_finalize: "reports (flow_protocol_metadata_finalize p f d m)"
  unfolding flow_protocol_metadata_finalize_def
  by (auto simp: reports_text_copy reports_device intro!: reports_and_then)

lemma reports_inspect:
  assumes "protocol_wf p" and "codec_reports (ps_ops p)"
  shows "flow_protocol_inspect (Some p) f d \<noteq> Inl SALTS_OK"
proof -
  obtain g where g: "co_inspect (ps_ops p) = Some g" "\<And>v f m. reports (g v f m)"
    using assms by (auto simp: protocol_wf_def codec_reports_def)
  have "reports (flow_protocol_inspect (Some p) f d)"
    unfolding flow_protocol_inspect_def using g reports_finalize by (auto intro!: reports_and_then)
  then show ?thesis by (simp add: reports_def)
qed

text \<open>A published frame has been inspected.\<close>

lemma generated_OK:
  assumes "protocol_wf p" and "codec_reports (ps_ops p)"
    and "flow_protocol_generated_frame_validate p dev x = (SALTS_OK, y)" and "fo_data_size x \<noteq> 0"
  shows "\<exists>md. y = x\<lparr>fo_metadata := md\<rparr> \<and> fo_data_size x \<le> length (fo_bytes x) \<and>
    flow_protocol_inspect (Some p) (Some (generated_view p dev x)) DIRECTION_DOWN = Inr md"
  using assms(3,4) reports_inspect [OF assms(1,2)]
  by (auto simp: flow_protocol_generated_frame_validate_def split: if_splits sum.splits)

lemma finalize_direction:
  assumes "flow_protocol_metadata_finalize p f d i = Inr m"
  shows "flow_protocol_metadata_finalize p f d' i = Inr (m\<lparr>pm_direction := d'\<rparr>)"
  using assms unfolding flow_protocol_metadata_finalize_def
  by (auto simp: guards)

lemma inspect_direction:
  assumes "flow_protocol_inspect (Some p) (Some f) d = Inr m"
  shows "flow_protocol_inspect (Some p) (Some f) d' = Inr (m\<lparr>pm_direction := d'\<rparr>)"
  using assms finalize_direction by (auto simp: inspect_Inr)

lemma encode_OK:
  assumes "protocol_wf p" and "codec_reports (ps_ops p)"
    and "turbo_flow_protocol_encode (Some p) (Some c) (Some x) = (SALTS_OK, Some y)"
    and "fo_data_size y \<noteq> 0"
  shows "fo_data_size y \<le> length (fo_bytes y) \<and>
    pm_operation (fo_metadata y) = the (cv_operation c) \<and>
    flow_protocol_inspect (Some p) (Some (generated_view p (cv_device_id c) y)) DIRECTION_DOWN =
      Inr (fo_metadata y)"
proof -
  obtain x1 where x1: "flow_protocol_frame_output_validate (Some x) = (SALTS_OK, Some x1)"
    using assms(3) by (cases "flow_protocol_frame_output_validate (Some x)")
      (auto simp: turbo_flow_protocol_encode_def flow_protocol_frame_output_validate_def
        split: if_splits)
  obtain g where g: "co_encode (ps_ops p) = Some g"
    and cv: "flow_protocol_command_validate (Some p) (Some c) = SALTS_OK"
    using assms(3) x1 by (auto simp: turbo_flow_protocol_encode_def split: if_splits)
  have "reports (g (ps_protocol_version p) c x1)"
    using assms(2) g by (simp add: codec_reports_def)
  then obtain z where z: "flow_protocol_generated_frame_validate p (cv_device_id c) z = (SALTS_OK, y)"
    and op: "pm_operation (fo_metadata y) = the (cv_operation c)"
    using assms(3) x1 cv g
    by (auto simp: turbo_flow_protocol_encode_def reports_def split: if_splits sum.splits prod.splits)
  have "fo_data_size z \<noteq> 0"
    using z assms(4) by (cases "fo_data_size z = 0")
      (simp_all add: flow_protocol_generated_frame_validate_def)
  then obtain md where md: "y = z\<lparr>fo_metadata := md\<rparr>" "fo_data_size z \<le> length (fo_bytes z)"
    "flow_protocol_inspect (Some p) (Some (generated_view p (cv_device_id c) z)) DIRECTION_DOWN = Inr md"
    using generated_OK [OF assms(1,2) z] by blast
  moreover have "generated_view p (cv_device_id c) y = generated_view p (cv_device_id c) z"
    by (simp add: md(1) generated_view_def)
  ultimately show ?thesis using op by simp
qed

lemma decode_accepted:
  assumes "flow_protocol_inspect (Some p) (Some f) DIRECTION_UP = Inr md"
    and "flow_protocol_message_output_reset (Some m) = (SALTS_OK, Some m1)"
    and "length (fv_bytes f) \<le> length (mo_bytes m)"
  shows "turbo_flow_protocol_decode (Some p) (Some f) (Some m) =
    (SALTS_OK, Some (message_publish f md m1))"
proof -
  have "mo_bytes m1 = mo_bytes m" using assms(2) by (simp add: message_output_reset_OK)
  then show ?thesis using assms by (simp add: turbo_flow_protocol_decode_def)
qed

lemma semantic_call_Inr:
  assumes "flow_protocol_semantic_call q f raw sem = Inr (raw', sem')"
  shows "take (mo_payload_size raw') (mo_bytes raw') = fv_bytes f" and "so_data sem' = so_data sem"
    and "length (so_bytes sem') = length (so_bytes sem)" and "so_data_size sem' \<le> length (so_bytes sem)"
  using assms
  by (auto simp: flow_protocol_semantic_call_def guards semantic_unchanged_def message_publish_def
      overwrite_def not_less split: if_splits prod.splits)

lemma reports_semantic_call:
  assumes "codec_reports (ps_ops q)" and "co_decode_semantic (ps_ops q) \<noteq> None"
  shows "reports (flow_protocol_semantic_call q f raw sem)"
  using assms unfolding flow_protocol_semantic_call_def codec_reports_def
  by (auto simp: reports_finalize intro!: reports_and_then split: prod.split)

section \<open>Segmented replies\<close>

definition slices_ready :: "slices_output \<Rightarrow> mem_slice list \<Rightarrow> bool" where
  "slices_ready x ss \<longleftrightarrow>
     sl_size x \<noteq> ShortSize \<and> sl_abi_version x = PROTOCOL_ABI_VERSION \<and> sl_segments x = Some ss \<and>
     0 < length ss \<and> length ss \<le> PROTOCOL_REPLY_VECTOR_MAX_SEGMENTS \<and>
     (\<forall>s \<in> set ss. s = EMPTY_SLICE)"

lemma segments_total_Some:
  "segments_total n ss = Some k \<Longrightarrow>
     (\<forall>s \<in> set ss. flow_protocol_reply_slice_valid s) \<and> k = n + sum_list (map ms_length ss)"
proof (induction ss arbitrary: n)
  case (Cons s ss)
  then have "segments_total (n + ms_length s) ss = Some k" by (simp split: if_splits)
  from Cons.IH [OF this] show ?case using Cons.prems by (auto split: if_splits)
qed simp

lemma slice_valid_bytes:
  "flow_protocol_reply_slice_valid s \<Longrightarrow> length (slice_bytes s) = ms_length s \<and> slice_bytes s \<noteq> []"
  by (auto simp: flow_protocol_reply_slice_valid_def slice_bytes_def split: option.splits if_splits)

lemma slices_check_outcome:
  assumes "flow_protocol_slices_check q f rm x = (rc, Some y)"
  shows "sl_segment_count y = 0 \<or>
    rc = SALTS_OK \<and> sl_segment_count y \<le> length (the (sl_segments y)) \<and>
    (\<forall>s \<in> set (take (sl_segment_count y) (the (sl_segments y))). flow_protocol_reply_slice_valid s) \<and>
    sl_data_size y = sum_list (map ms_length (take (sl_segment_count y) (the (sl_segments y)))) \<and>
    0 < sl_data_size y \<and> sl_data_size y \<le> ps_max_frame_size q"
  using assms
  by (auto simp: flow_protocol_slices_check_def Let_def dest!: segments_total_Some
      split: if_splits option.splits sum.splits)

lemma slices_check_fails:
  "codec_reports (ps_ops q) \<Longrightarrow> flow_protocol_slices_check q f rm x = (rc, None) \<Longrightarrow> rc \<noteq> SALTS_OK"
  using reports_finalize [of q f DIRECTION_DOWN "sl_metadata x"]
  by (auto simp: flow_protocol_slices_check_def Let_def reports_def
      split: if_splits option.splits sum.splits)

lemma release_count:
  "sl_segments x \<noteq> None \<Longrightarrow>
     \<exists>y. turbo_flow_protocol_frame_slices_output_release (Some x) = Some y \<and> sl_segment_count y = 0 \<and>
         sl_data_size y = 0"
  by (auto simp: turbo_flow_protocol_frame_slices_output_release_def Let_def)

definition codec_keeps_slots :: "'s codec_ops \<Rightarrow> bool" where
  "codec_keeps_slots o1 \<longleftrightarrow>
     (\<forall>g. co_reply_slices o1 = Some g \<longrightarrow>
        (\<forall>s v f st x s' y. g s v f st x = (s', Inr y) \<longrightarrow> sl_segments x \<noteq> None \<longrightarrow>
           sl_segments y \<noteq> None))"

section \<open>The codec contract\<close>

locale protocol_codec =
  fixes inspect :: inspect_fn
    and reply :: "'s reply_fn"
    and encode :: encode_fn
  assumes inspect_sound: "inspect v f METADATA_INIT = Inr m \<Longrightarrow> metadata_sound m"
    and reply_frame:
      "inspect v f METADATA_INIT = Inr m \<Longrightarrow> reply s v f st x = (s', Inr y) \<Longrightarrow>
         \<exists>bs x'. y = frame_put bs x' \<and> fo_data x' = fo_data x \<and> length bs \<le> length (fo_bytes x') \<and>
           (bs \<noteq> [] \<longrightarrow> (\<forall>g. fv_data g \<noteq> 0 \<longrightarrow> fv_bytes g = bs \<longrightarrow>
              (\<exists>m'. inspect v g METADATA_INIT = Inr m' \<and> pm_device_id m' = pm_device_id m)))"
    and encode_frame:
      "encode v c x = Inr y \<Longrightarrow> cv_device_id c = Some dev \<Longrightarrow> cv_operation c = Some oper \<Longrightarrow>
         segment_ok dev PROTOCOL_DEVICE_ID_MAX \<Longrightarrow>
         \<exists>bs. y = frame_put bs x \<and> length bs \<le> length (fo_bytes x) \<and> bs \<noteq> [] \<and>
           (\<forall>g. fv_data g \<noteq> 0 \<longrightarrow> fv_bytes g = bs \<longrightarrow>
              (\<exists>m'. inspect v g METADATA_INIT = Inr m' \<and> pm_operation m' = oper \<and>
                    pm_device_id m' \<in> {[], dev}))"
begin

text \<open>A frame the codec generated for a device passes the host's inspection.\<close>

lemma generated_accepted:
  assumes "protocol_wf p" and "co_inspect (ps_ops p) = Some inspect"
    and "bs \<noteq> []" and "length bs \<le> length (fo_bytes x)" and "length bs \<le> ps_max_frame_size p"
    and "fo_data x \<noteq> 0" and "segment_ok dev PROTOCOL_DEVICE_ID_MAX"
    and "\<forall>g. fv_data g \<noteq> 0 \<longrightarrow> fv_bytes g = bs \<longrightarrow>
           (\<exists>m'. inspect (ps_protocol_version p) g METADATA_INIT = Inr m' \<and> Q m' \<and>
              pm_device_id m' \<in> {[], dev})"
  shows "\<exists>m'. inspect (ps_protocol_version p) (generated_view p (Some dev) (frame_put bs x)) METADATA_INIT =
      Inr m' \<and> Q m' \<and>
    flow_protocol_generated_frame_validate p (Some dev) (frame_put bs x) =
      (SALTS_OK, (frame_put bs x)\<lparr>fo_metadata := host_filled p DIRECTION_DOWN dev m'\<rparr>)"
proof -
  let ?g = "generated_view p (Some dev) (frame_put bs x)"
  have bytes: "fv_bytes ?g = bs" "fv_data ?g \<noteq> 0" "fv_device_id ?g = Some dev"
    "fv_protocol_version ?g = Some (ps_protocol_version p)" "fv_size ?g = ExactSize"
    "fv_abi_version ?g = PROTOCOL_ABI_VERSION"
    using assms(4,6) by (simp_all add: generated_view_def frame_put_def overwrite_def FRAME_VIEW_INIT_def)
  then obtain m' where m': "inspect (ps_protocol_version p) ?g METADATA_INIT = Inr m'" "Q m'"
    "pm_device_id m' \<in> {[], dev}"
    using assms(8) by blast
  have fin: "flow_protocol_metadata_finalize p ?g DIRECTION_DOWN m' =
      Inr (host_filled p DIRECTION_DOWN dev m')"
    using m'(3) bytes(3) assms(1,7) inspect_sound [OF m'(1)] by (intro finalize_sound) auto
  have valid: "flow_protocol_frame_validate (Some p) (Some ?g) = SALTS_OK"
    using bytes assms(3,5,7) by (simp add: frame_validate_OK segment_ok_def)
  have "flow_protocol_inspect (Some p) (Some ?g) DIRECTION_DOWN =
      Inr (host_filled p DIRECTION_DOWN dev m')"
    using fin valid m'(1) assms(1,2) by (simp add: inspect_Inr protocol_wf_def)
  moreover have "fo_data_size (frame_put bs x) = length bs"
    "length (fo_bytes (frame_put bs x)) = length (fo_bytes x)"
    using assms(4) by (simp_all add: frame_put_def overwrite_def)
  ultimately show ?thesis
    using assms(3-5) m'(1,2) unfolding flow_protocol_generated_frame_validate_def by auto
qed

text \<open>The host's reply to an accepted request: it passes on the codec's error, publishes what the
  codec produced with the metadata the codec's own inspection reads, and refuses a frame only for
  the instance's limit.\<close>

lemma host_reply:
  assumes p: "protocol_wf p" "co_inspect (ps_ops p) = Some inspect"
    "co_reply (ps_ops p) = Some reply" "ps_capabilities p AND CAP_PROTOCOL_REPLY \<noteq> 0"
    and rm: "flow_protocol_inspect (Some p) (Some f) DIRECTION_UP = Inr rm"
    and x1: "flow_protocol_frame_output_validate (Some x) = (SALTS_OK, Some x1)"
    and call: "reply (ps_codec_ctx p) (ps_protocol_version p) f st x1 = (ctx, r)"
  shows "case r of
      Inl rc \<Rightarrow> turbo_flow_protocol_reply (Some p) (Some f) st (Some x) =
        (Some (p\<lparr>ps_codec_ctx := ctx\<rparr>), rc, Some (x1\<lparr>fo_data_size := 0\<rparr>))
    | Inr y \<Rightarrow>
        if fo_data_size y = 0 then turbo_flow_protocol_reply (Some p) (Some f) st (Some x) =
          (Some (p\<lparr>ps_codec_ctx := ctx\<rparr>), SALTS_OK,
           Some (y\<lparr>fo_metadata := rm\<lparr>pm_direction := DIRECTION_DOWN\<rparr>\<rparr>))
        else if fo_data_size y \<le> ps_max_frame_size p then
          \<exists>m'. inspect (ps_protocol_version p) (generated_view p (Some (pm_device_id rm)) y)
                 METADATA_INIT = Inr m' \<and>
            turbo_flow_protocol_reply (Some p) (Some f) st (Some x) =
              (Some (p\<lparr>ps_codec_ctx := ctx\<rparr>), SALTS_OK,
               Some (y\<lparr>fo_metadata := host_filled p DIRECTION_DOWN (pm_device_id rm) m'\<rparr>))
        else turbo_flow_protocol_reply (Some p) (Some f) st (Some x) =
          (Some (p\<lparr>ps_codec_ctx := ctx\<rparr>), SALTS_EMSGSIZE, Some y)"
proof -
  let ?q = "p\<lparr>ps_codec_ctx := ctx\<rparr>" and ?dev = "pm_device_id rm"
  obtain i where i: "inspect (ps_protocol_version p) f METADATA_INIT = Inr i"
    "flow_protocol_metadata_finalize p f DIRECTION_UP i = Inr rm"
    using p(2) rm by (auto simp: inspect_Inr)
  have dev: "segment_ok ?dev PROTOCOL_DEVICE_ID_MAX" "pm_device_id i \<in> {[], ?dev}"
    using finalize_Inr [OF i(2) p(1)] by (auto simp: host_filled_def)
  have data: "fo_data x1 \<noteq> 0"
    using x1 by (auto simp: flow_protocol_frame_output_validate_def split: if_splits)
  note unfolded = turbo_flow_protocol_reply_def Let_def p(3,4) rm x1 call
  show ?thesis
  proof (cases r)
    case (Inr y)
    obtain bs x2 where bs: "y = frame_put bs x2" "length bs \<le> length (fo_bytes x2)"
      "bs \<noteq> [] \<longrightarrow> (\<forall>g. fv_data g \<noteq> 0 \<longrightarrow> fv_bytes g = bs \<longrightarrow>
         (\<exists>m'. inspect (ps_protocol_version p) g METADATA_INIT = Inr m' \<and>
               pm_device_id m' = pm_device_id i))" and data2: "fo_data x2 \<noteq> 0"
      using reply_frame [OF i(1) call [unfolded Inr]] data by metis
    have size: "fo_data_size y = length bs" "length (fo_bytes y) = length (fo_bytes x2)"
      using bs(2) by (simp_all add: bs(1) frame_put_def overwrite_def)
    have view: "generated_view ?q (Some ?dev) y = generated_view p (Some ?dev) y"
      by (simp add: generated_view_def)
    consider "bs = []" | "bs \<noteq> []" "length bs \<le> ps_max_frame_size p"
      | "bs \<noteq> []" "\<not> length bs \<le> ps_max_frame_size p" by blast
    then show ?thesis
    proof cases
      case 2
      then have "\<exists>m'. inspect (ps_protocol_version ?q) (generated_view ?q (Some ?dev) (frame_put bs x2))
            METADATA_INIT = Inr m' \<and> True \<and>
          flow_protocol_generated_frame_validate ?q (Some ?dev) (frame_put bs x2) =
          (SALTS_OK, (frame_put bs x2)\<lparr>fo_metadata := host_filled ?q DIRECTION_DOWN ?dev m'\<rparr>)"
        using bs(2,3) p(1,2) dev data2 by (intro generated_accepted) auto
      then show ?thesis
        using 2 size view by (auto simp: unfolded Inr bs(1) host_filled_def)
    qed (use size bs(2) in \<open>auto simp: unfolded Inr flow_protocol_generated_frame_validate_def\<close>)
  qed (simp add: unfolded)
qed

text \<open>The same for commands.\<close>

lemma host_encode:
  assumes p: "protocol_wf p" "co_inspect (ps_ops p) = Some inspect"
    "co_encode (ps_ops p) = Some encode" "ps_capabilities p AND CAP_COMMAND_ENCODE \<noteq> 0"
    and c: "flow_protocol_command_validate (Some p) (Some c) = SALTS_OK"
    "cv_device_id c = Some dev" "cv_operation c = Some oper" "segment_ok dev PROTOCOL_DEVICE_ID_MAX"
    and x1: "flow_protocol_frame_output_validate (Some x) = (SALTS_OK, Some x1)"
  shows "case encode (ps_protocol_version p) c x1 of
      Inl rc \<Rightarrow> turbo_flow_protocol_encode (Some p) (Some c) (Some x) =
        (rc, Some (x1\<lparr>fo_data_size := 0\<rparr>))
    | Inr y \<Rightarrow>
        if fo_data_size y \<le> ps_max_frame_size p then
          \<exists>m'. inspect (ps_protocol_version p) (generated_view p (Some dev) y) METADATA_INIT = Inr m' \<and>
            pm_operation m' = oper \<and>
            turbo_flow_protocol_encode (Some p) (Some c) (Some x) =
              (SALTS_OK, Some (y\<lparr>fo_metadata := host_filled p DIRECTION_DOWN dev m'\<rparr>))
        else turbo_flow_protocol_encode (Some p) (Some c) (Some x) = (SALTS_EMSGSIZE, Some y)"
proof (cases "encode (ps_protocol_version p) c x1")
  case (Inl rc)
  then show ?thesis by (simp add: turbo_flow_protocol_encode_def p(3,4) c x1)
next
  case (Inr y)
  have data: "fo_data x1 \<noteq> 0"
    using x1 by (auto simp: flow_protocol_frame_output_validate_def split: if_splits)
  obtain bs where bs: "y = frame_put bs x1" "length bs \<le> length (fo_bytes x1)" "bs \<noteq> []"
    "\<forall>g. fv_data g \<noteq> 0 \<longrightarrow> fv_bytes g = bs \<longrightarrow>
       (\<exists>m'. inspect (ps_protocol_version p) g METADATA_INIT = Inr m' \<and>
             pm_operation m' = oper \<and> pm_device_id m' \<in> {[], dev})"
    using encode_frame [OF Inr c(2-4)] by blast
  have size: "fo_data_size y = length bs" "length (fo_bytes y) = length (fo_bytes x1)"
    using bs(2) by (simp_all add: bs(1) frame_put_def overwrite_def)
  note unfolded = turbo_flow_protocol_encode_def p(3,4) c x1 Inr
  show ?thesis
  proof (cases "length bs \<le> ps_max_frame_size p")
    case True
    from generated_accepted [OF p(1,2) bs(3,2) True data c(4) bs(4)]
    show ?thesis using True size by (auto simp: unfolded bs(1) host_filled_def)
  next
    case False
    then show ?thesis
      using size bs(2,3) by (auto simp: unfolded flow_protocol_generated_frame_validate_def)
  qed
qed

end

section \<open>Opening an instance\<close>

definition plugin_ops :: "'s plugin_descriptor \<Rightarrow> 's codec_ops" where
  "plugin_ops d =
     \<lparr>co_size = 56, co_abi_version = PROTOCOL_ABI_VERSION, co_inspect = pd_inspect d,
      co_reply = pd_reply d, co_encode = pd_encode d, co_decode_semantic = pd_decode_semantic d,
      co_reply_slices = pd_reply_slices d\<rparr>"

text \<open>An instance the plugin of a descriptor has opened.\<close>

definition opened :: "'s plugin_descriptor \<Rightarrow> 's protocol \<Rightarrow> bool" where
  "opened d p \<longleftrightarrow>
     protocol_wf p \<and> ps_ops p = plugin_ops d \<and> ps_protocol p = pd_protocol d \<and>
     ps_protocol_version p \<in> set (pd_versions d) \<and>
     (pd_reply d \<noteq> None \<longrightarrow> ps_capabilities p AND CAP_PROTOCOL_REPLY \<noteq> 0) \<and>
     (pd_encode d \<noteq> None \<longrightarrow> ps_capabilities p AND CAP_COMMAND_ENCODE \<noteq> 0)"

lemma reports_create: "reports (turbo_flow_protocol_create alloc r n v c ops ctx out)"
  unfolding turbo_flow_protocol_create_def
  by (auto simp: Let_def reports_text_copy intro!: reports_and_then split: option.splits)

lemma create_Inr:
  assumes "turbo_flow_protocol_create alloc (Some r) (Some n) (Some v) caps (Some o1) ctx True = Inr p"
  shows "ps_capabilities p = caps" and "ps_protocol p = or_protocol r" and "ps_codec_ctx p = ctx"
    and "ps_max_frame_size p = or_max_frame_size r"
    and "ps_protocol_version p = (if text_given (or_protocol_version r) then the (or_protocol_version r) else v)"
    and "co_size o1 \<ge> 56 \<Longrightarrow> ps_ops p = o1"
  using assms unfolding turbo_flow_protocol_create_def Let_def prod.case option.case
  by (simp_all only: guards text_copy_Inr) (auto split: if_splits)

definition plugin_capabilities :: "'s plugin_descriptor \<Rightarrow> u64" where
  "plugin_capabilities d =
     CAP_INGRESS OR CAP_EGRESS OR CAP_RAW_PRESERVE OR
     (if pd_reply d \<noteq> None then CAP_PROTOCOL_REPLY else 0) OR
     (if pd_encode d \<noteq> None then CAP_COMMAND_ENCODE else 0) OR
     (if pd_decode_semantic d \<noteq> None then CAP_SEMANTIC_DECODE else 0)"

lemma plugin_capability_bits:
  "pd_reply d \<noteq> None \<Longrightarrow> plugin_capabilities d AND CAP_PROTOCOL_REPLY \<noteq> 0"
  "pd_encode d \<noteq> None \<Longrightarrow> plugin_capabilities d AND CAP_COMMAND_ENCODE \<noteq> 0"
  by (simp_all add: plugin_capabilities_def protocol_caps)

lemma plugin_open_opens:
  assumes "flow_protocol_plugin_open alloc (Some d) (Some r) (Some s) = (SALTS_OK, s')"
  shows "\<exists>p. s' = Some (s\<lparr>sv_protocol := pd_protocol d, sv_instance := Some p, sv_owner := Some p\<rparr>) \<and>
    opened d p \<and> ps_codec_ctx p = pd_inspect_ctx d \<and> ps_max_frame_size p = or_max_frame_size r"
proof -
  let ?create = "turbo_flow_protocol_create alloc (Some r) (Some (pd_name d))
    (Some (pd_default_version d)) (plugin_capabilities d) (Some (plugin_ops d)) (pd_inspect_ctx d) True"
  let ?version = "if text_given (or_protocol_version r) then the (or_protocol_version r)
    else pd_default_version d"
  have eq: "flow_protocol_plugin_open alloc (Some d) (Some r) (Some s) =
    (if or_protocol r \<noteq> pd_protocol d then (SALTS_EINVAL, Some s)
     else if \<not> flow_protocol_version_supported d ?version then (SALTS_ENOTSUP, Some s)
     else case ?create of Inl rc \<Rightarrow> (rc, Some s)
       | Inr p \<Rightarrow> (SALTS_OK, Some (s\<lparr>sv_protocol := pd_protocol d, sv_instance := Some p,
           sv_owner := Some p\<rparr>)))"
    by (simp add: flow_protocol_plugin_open_def Let_def plugin_ops_def plugin_capabilities_def)
  obtain p where p: "?create = Inr p" and kind: "or_protocol r = pd_protocol d"
    and version: "flow_protocol_version_supported d ?version"
    and s': "s' = Some (s\<lparr>sv_protocol := pd_protocol d, sv_instance := Some p, sv_owner := Some p\<rparr>)"
    using assms reports_create [of alloc "Some r" "Some (pd_name d)" "Some (pd_default_version d)"
        "plugin_capabilities d" "Some (plugin_ops d)" "pd_inspect_ctx d" True]
    unfolding eq reports_def by (auto split: if_splits sum.splits)
  note created = create_Inr [OF p]
  have "ps_ops p = plugin_ops d" by (rule created(6)) (simp add: plugin_ops_def)
  then have "opened d p"
    using create_wf [OF p] created(1,2,5) kind version plugin_capability_bits [of d]
    by (simp add: opened_def flow_protocol_version_supported_def)
  then show ?thesis using s' created(3,4) by blast
qed

section \<open>Concrete values\<close>

text \<open>The instance a plugin opens by default, an empty output and plain views, for the witnesses.\<close>

definition plugin_instance :: "'s plugin_descriptor \<Rightarrow> nat \<Rightarrow> 's protocol" where
  "plugin_instance d n =
     \<lparr>ps_open = True, ps_protocol = pd_protocol d, ps_capabilities = plugin_capabilities d,
      ps_max_frame_size = n, ps_name = pd_name d, ps_protocol_version = pd_default_version d,
      ps_ops = plugin_ops d, ps_codec_ctx = pd_inspect_ctx d\<rparr>"

definition sample_output :: "nat \<Rightarrow> frame_output" where
  "sample_output n = \<lparr>fo_size = ExactSize, fo_abi_version = PROTOCOL_ABI_VERSION, fo_data = 4096,
     fo_bytes = replicate n 0, fo_data_size = 0, fo_metadata = METADATA_INIT\<rparr>"

definition sample_view :: "u8 list \<Rightarrow> frame_view" where
  "sample_view bs = FRAME_VIEW_INIT\<lparr>fv_data := 8192, fv_bytes := bs\<rparr>"

definition sample_command :: "ctext \<Rightarrow> string \<Rightarrow> u64 \<Rightarrow> u8 list \<Rightarrow> command_view" where
  "sample_command dev oper seq bs =
     \<lparr>cv_size = ExactSize, cv_abi_version = PROTOCOL_ABI_VERSION, cv_device_id = Some dev,
      cv_operation = Some (ctext_of oper), cv_resource = None, cv_correlation_id = None,
      cv_sequence = seq, cv_payload = 12288, cv_bytes = bs\<rparr>"

lemma plugin_instance_sel [simp]:
  "ps_max_frame_size (plugin_instance d n) = n" "ps_codec_ctx (plugin_instance d n) = pd_inspect_ctx d"
  "ps_protocol_version (plugin_instance d n) = pd_default_version d"
  "ps_ops (plugin_instance d n) = plugin_ops d" "ps_protocol (plugin_instance d n) = pd_protocol d"
  by (simp_all add: plugin_instance_def)

lemma sample_output_sel [simp]:
  "fo_bytes (sample_output n) = replicate n 0" "fo_data (sample_output n) \<noteq> 0"
  by (simp_all add: sample_output_def)

lemma sample_view_sel [simp]:
  "fv_bytes (sample_view bs) = bs" "fv_data (sample_view bs) \<noteq> 0" "fv_device_id (sample_view bs) = None"
  by (simp_all add: sample_view_def FRAME_VIEW_INIT_def)

lemma sample_command_sel [simp]:
  "cv_device_id (sample_command dev oper seq bs) = Some dev"
  "cv_operation (sample_command dev oper seq bs) = Some (ctext_of oper)"
  "cv_sequence (sample_command dev oper seq bs) = seq" "cv_bytes (sample_command dev oper seq bs) = bs"
  "cv_payload (sample_command dev oper seq bs) \<noteq> 0" "cv_resource (sample_command dev oper seq bs) = None"
  by (simp_all add: sample_command_def)

lemma plugin_instance_opened:
  assumes "pd_inspect d \<noteq> None" and "flow_protocol_kind_valid (pd_protocol d)" and "0 < n"
    and "segment_ok (pd_name d) PROTOCOL_OPERATION_MAX"
    and "pd_default_version d \<in> set (pd_versions d)" and "pd_default_version d \<noteq> []"
    and "length (pd_default_version d) \<le> PROTOCOL_VERSION_MAX"
  shows "opened d (plugin_instance d n)"
  using assms plugin_capability_bits [of d]
  by (auto simp: opened_def protocol_wf_def plugin_instance_def plugin_ops_def plugin_capabilities_def
      protocol_caps)

lemma sample_output_valid:
  "0 < n \<Longrightarrow> flow_protocol_frame_output_validate (Some (sample_output n)) = (SALTS_OK, Some (sample_output n))"
  by (simp add: frame_output_validate_OK sample_output_def)

lemma sample_command_valid:
  "segment_ok dev PROTOCOL_DEVICE_ID_MAX \<Longrightarrow> name_ok oper \<Longrightarrow> length bs \<le> n \<Longrightarrow>
     flow_protocol_command_validate (Some (plugin_instance d n)) (Some (sample_command dev oper seq bs)) =
       SALTS_OK"
  by (auto simp: flow_protocol_command_validate_def sample_command_def text_given_def segment_ok_iff
      segment_ok_def [symmetric] name_ok_def protocol_limits ctext_of_def)

text \<open>An accepted frame that names its own device.\<close>

lemma sample_inspected:
  assumes "opened d (plugin_instance d n)" and "pd_inspect d = Some g"
    and "g (pd_default_version d) (sample_view bs) METADATA_INIT = Inr m" and "metadata_sound m"
    and "pm_device_id m \<noteq> []" and "bs \<noteq> []" and "length bs \<le> n"
  shows "flow_protocol_inspect (Some (plugin_instance d n)) (Some (sample_view bs)) DIRECTION_UP =
    Inr (host_filled (plugin_instance d n) DIRECTION_UP (pm_device_id m) m)"
proof -
  have wf: "protocol_wf (plugin_instance d n)" using assms(1) by (simp add: opened_def)
  have "flow_protocol_metadata_finalize (plugin_instance d n) (sample_view bs) DIRECTION_UP m =
      Inr (host_filled (plugin_instance d n) DIRECTION_UP (pm_device_id m) m)"
    using assms(4,5) wf by (intro finalize_sound) (auto simp: metadata_sound_def text_given_def)
  moreover have "flow_protocol_frame_validate (Some (plugin_instance d n)) (Some (sample_view bs)) = SALTS_OK"
    using assms(6,7) by (simp add: frame_validate_OK sample_view_def FRAME_VIEW_INIT_def text_given_def)
  ultimately show ?thesis
    using assms(2,3) wf by (simp add: inspect_Inr plugin_ops_def protocol_wf_def)
qed

end
