(* ===== verification/Flow_JTT808_Proofs.thy ===== *)
theory Flow_JTT808_Proofs
  imports Flow_JTT808 Flow_Protocol_Contract
begin

unbundle bit_operations_syntax

text \<open>
  Lemmas on the JT/T 808 codec: escaping and its inverse, the decoder's state as a function of the
  bytes consumed, the shape of the frames the codec writes and of those it accepts, the semantic
  pass as an extension of the inspection, and the interpretation of the codec contract.
\<close>

section \<open>Escaping\<close>

definition jtt808_escape :: "u8 list \<Rightarrow> u8 list" where
  "jtt808_escape bs = concat (map escape_byte bs)"

lemma jtt808_escape_simps [simp]:
  "jtt808_escape [] = []"
  "jtt808_escape (b # bs) = escape_byte b @ jtt808_escape bs"
  "jtt808_escape (as @ bs) = jtt808_escape as @ jtt808_escape bs"
  by (simp_all add: jtt808_escape_def)

lemma length_escape_byte: "length (escape_byte v) = (if v = 0x7e \<or> v = 0x7d then 2 else 1)"
  by (simp add: escape_byte_def)

lemma length_jtt808_escape: "length (jtt808_escape bs) = flow_jtt808_escaped_size bs"
  by (induction bs) (simp_all add: length_escape_byte)

lemma escape_write_eq:
  "flow_jtt808_escape_write bs capacity =
     (if flow_jtt808_escaped_size bs \<le> capacity then Inr (jtt808_escape bs) else Inl SALTS_EMSGSIZE)"
  by (induction bs arbitrary: capacity) (auto simp: Let_def)

lemma escaped_size_bounds: "length bs \<le> flow_jtt808_escaped_size bs \<and>
    flow_jtt808_escaped_size bs \<le> 2 * length bs"
  by (induction bs) auto

text \<open>The delimiter occurs in no escaped text.\<close>

lemma delimiter_not_in_escape: "0x7e \<notin> set (jtt808_escape bs)"
  by (induction bs) (auto simp: escape_byte_def)

fun jtt808_steps :: "u8 list \<Rightarrow> jtt808_state \<Rightarrow> status + jtt808_state" where
  "jtt808_steps [] st = Inr st"
| "jtt808_steps (v # vs) st = and_then (jtt808_step v st) (jtt808_steps vs)"

lemma jtt808_steps_append:
  "jtt808_steps (us @ vs) st = and_then (jtt808_steps us st) (jtt808_steps vs)"
proof (induction us arbitrary: st)
  case (Cons u us)
  then show ?case by (cases "jtt808_step u st") auto
qed simp

lemma jtt808_scan_escape: "jtt808_scan (jtt808_escape bs) st = jtt808_steps bs st"
proof (induction bs arbitrary: st)
  case (Cons b bs)
  have "jtt808_scan (jtt808_escape bs) = jtt808_steps bs"
    by (rule ext) (rule Cons.IH)
  then show ?case by (simp add: escape_byte_def)
qed simp

fun capture_all :: "u8 list \<Rightarrow> nat \<Rightarrow> u8 list \<Rightarrow> u8 list" where
  "capture_all [] n capture = capture"
| "capture_all (v # vs) n capture = capture_all vs (n + 1) (capture[n := v])"

lemma unescape_scan_escape:
  "unescape_scan (jtt808_escape bs) capture n c =
     Inr (capture_all bs n capture, n + length bs, fold (\<lambda>b c. c XOR b) bs c)"
  by (induction bs arbitrary: capture n c) (auto simp: escape_byte_def)

text \<open>A capture buffer of \<open>k\<close> zeroed bytes that has received the bytes \<open>d\<close>.\<close>

definition captured :: "nat \<Rightarrow> u8 list \<Rightarrow> u8 list" where
  "captured k d = take k (d @ replicate k 0)"

lemma length_captured [simp]: "length (captured k d) = k"
  by (simp add: captured_def)

lemma captured_Nil: "captured k [] = replicate k 0"
  by (simp add: captured_def)

lemma captured_update: "(captured k d)[length d := v] = captured k (d @ [v])"
  by (rule nth_equalityI)
    (auto simp: captured_def nth_list_update nth_append not_less nth_Cons split: nat.split)

lemma captured_nth: "i < k \<Longrightarrow> i < length d \<Longrightarrow> captured k d ! i = d ! i"
  by (simp add: captured_def nth_append)

lemma capture_all_eq:
  "capture_all bs (length d) (captured k d) = captured k (d @ bs)"
proof (induction bs arbitrary: d)
  case (Cons b bs)
  then show ?case using Cons.IH [of "d @ [b]"] by (simp add: captured_update)
qed simp

section \<open>The decoder's state\<close>

definition base_size_of :: "u16 \<Rightarrow> nat" where
  "base_size_of p = (if p AND 0x4000 \<noteq> 0 then 17 else 12)"

definition header_size_of :: "u16 \<Rightarrow> nat" where
  "header_size_of p = base_size_of p + (if p AND 0x2000 \<noteq> 0 then 4 else 0)"

text \<open>The state of an inspection after the bytes \<open>d\<close>: everything is a function of \<open>d\<close>.\<close>

definition jtt808_after :: "u8 list \<Rightarrow> jtt808_state" where
  "jtt808_after d =
     (let known = 4 \<le> length d; p = be16 (d ! 2) (d ! 3) in
      \<lparr>jd_header = captured JTT808_MAX_HEADER_SIZE d, jd_decoded_size = length d,
       jd_header_size = (if known then header_size_of p else 0),
       jd_base_header_size = (if known then base_size_of p else 0),
       jd_body_size = (if known then unat (p AND 0x03ff) else 0),
       jd_message_id = (if known then be16 (d ! 0) (d ! 1) else 0),
       jd_properties = (if known then p else 0),
       jd_checksum = xor_bytes d, jd_semantic_type = PROTOCOL_SEMANTIC_TYPE_NONE,
       jd_header_known = known, jd_semantic = None\<rparr>)"

lemma jtt808_after_Nil: "jtt808_start None = jtt808_after []"
  by (simp add: jtt808_start_def jtt808_after_def captured_Nil)

lemma jtt808_capture_after:
  "jtt808_capture v (jtt808_after d) =
     (jtt808_after d)\<lparr>jd_checksum := xor_bytes (d @ [v]),
        jd_header := captured JTT808_MAX_HEADER_SIZE (d @ [v])\<rparr>"
  by (simp add: jtt808_capture_def jtt808_after_def Let_def captured_update)

lemma jtt808_step_after: "jtt808_step v (jtt808_after d) = Inr (jtt808_after (d @ [v]))"
proof -
  consider "length d < 3" | "length d = 3" | "length d > 3" by linarith
  then show ?thesis
  proof cases
    case 2
    then obtain a b c where d: "d = [a, b, c]"
      by (auto simp: numeral_3_eq_3 length_Suc_conv)
    have hdr: "captured 21 [a, b, c, v] ! 0 = a" "captured 21 [a, b, c, v] ! Suc 0 = b"
      "captured 21 [a, b, c, v] ! 2 = c" "captured 21 [a, b, c, v] ! 3 = v"
      by (simp_all add: captured_nth)
    show ?thesis
      unfolding jtt808_step_def jtt808_capture_after
      by (simp add: d jtt808_after_def jtt808_read_header_def jtt808_content_def hdr
          JTT808_MAX_HEADER_SIZE_def header_size_of_def base_size_of_def Let_def)
  next
    case 1
    then show ?thesis
      unfolding jtt808_step_def jtt808_capture_after
      by (simp add: jtt808_after_def jtt808_read_header_def jtt808_content_def Let_def)
  next
    case 3
    then show ?thesis
      unfolding jtt808_step_def jtt808_capture_after
      by (simp add: jtt808_after_def jtt808_read_header_def jtt808_content_def Let_def nth_append) auto
  qed
qed

lemma jtt808_steps_after: "jtt808_steps d (jtt808_start None) = Inr (jtt808_after d)"
proof (induction d rule: rev_induct)
  case Nil
  then show ?case by (simp add: jtt808_after_Nil)
next
  case (snoc v d)
  then show ?case by (simp add: jtt808_steps_append jtt808_step_after)
qed

section \<open>Frames\<close>

text \<open>The wire form of a header and a body.\<close>

definition jtt808_frame :: "u8 list \<Rightarrow> u8 list \<Rightarrow> u8 list" where
  "jtt808_frame header body =
     [0x7e] @ jtt808_escape (header @ body @ [xor_bytes (header @ body)]) @ [0x7e]"

lemma jtt808_frame_ends:
  "length (jtt808_frame h b) \<ge> 2" "jtt808_frame h b ! 0 = 0x7e"
  "jtt808_frame h b ! (length (jtt808_frame h b) - 1) = 0x7e"
  "butlast (tl (jtt808_frame h b)) = jtt808_escape (h @ b @ [xor_bytes (h @ b)])"
  by (simp_all add: jtt808_frame_def nth_append butlast_append)

text \<open>What the codec's header encoder writes.\<close>

definition jtt808_header :: "u16 \<Rightarrow> bool \<Rightarrow> u8 list \<Rightarrow> u16 \<Rightarrow> nat \<Rightarrow> u8 list" where
  "jtt808_header message_id v2019 bcd serial n =
     (let p = (of_nat n OR (if v2019 then 0x4000 else 0)) :: u16
      in [hi8 message_id, lo8 message_id, hi8 p, lo8 p] @ (if v2019 then [1] else []) @
         bcd @ [hi8 serial, lo8 serial])"

lemma bcd_write_digits:
  "bcd_write ds = Inr bs \<Longrightarrow> bcd_digits bs = Inr ds \<and> length ds = 2 * length bs"
proof (induction ds arbitrary: bs rule: bcd_write.induct)
  case (3 x y ds)
  then obtain cs where cs: "bcd_write ds = Inr cs"
    and bs: "bs = (push_bit 4 (x - 0x30) OR (y - 0x30)) # cs"
    and x: "\<not> x < 0x30" "\<not> x > 0x39" and y: "\<not> y < 0x30" "\<not> y > 0x39"
    by (auto simp: and_then_Inr_iff split: if_splits)
  have lt: "x - 0x30 \<le> 9" "y - 0x30 \<le> 9"
    using x y by unat_arith+
  then have "x - 0x30 < 16" "y - 0x30 < 16" by unat_arith+
  moreover have "bcd_digits cs = Inr ds \<and> length ds = 2 * length cs"
    using 3 cs x y by simp
  ultimately show ?case using lt by (simp add: bs not_less)
qed simp_all

lemma frame_header_Inr:
  assumes "flow_jtt808_frame_header message_id device_id v2019 serial n cap = Inr h"
  shows "serial \<noteq> 0" and "n \<le> 0x3ff"
    and "\<exists>dev bcd. device_id = Some dev \<and> bcd_write dev = Inr bcd \<and>
      length bcd = (if v2019 then 10 else 6) \<and> h = jtt808_header message_id v2019 bcd serial n"
proof -
  obtain dev where dev: "device_id = Some dev"
    using assms by (cases device_id) (simp_all add: flow_jtt808_frame_header_def Let_def)
  have g: "serial \<noteq> 0 \<and> n \<le> 0x3ff \<and> length dev = (if v2019 then 20 else 12) \<and>
    (\<exists>bcd. bcd_write dev = Inr bcd \<and> h = jtt808_header message_id v2019 bcd serial n)"
    using assms unfolding flow_jtt808_frame_header_def Let_def dev jtt808_header_def
    by (simp only: guards option.sel de_Morgan_disj not_less not_not) (elim conjE exE; simp)
  then show "serial \<noteq> 0" and "n \<le> 0x3ff" by simp_all
  obtain bcd where bcd: "bcd_write dev = Inr bcd" "h = jtt808_header message_id v2019 bcd serial n"
    using g by blast
  then have "length bcd = (if v2019 then 10 else 6)"
    using bcd_write_digits [OF bcd(1)] g by (simp split: if_splits)
  then show "\<exists>dev bcd. device_id = Some dev \<and> bcd_write dev = Inr bcd \<and>
      length bcd = (if v2019 then 10 else 6) \<and> h = jtt808_header message_id v2019 bcd serial n"
    using bcd dev by blast
qed

text \<open>The header's properties: the body size in ten bits and the version flag.\<close>

lemma and_flag:
  fixes p :: u16
  shows "p AND 0x4000 = 0 \<longleftrightarrow> \<not> bit p 14" and "p AND 0x2000 = 0 \<longleftrightarrow> \<not> bit p 13"
  using and_exp_eq_0_iff_not_bit [of p 14] and_exp_eq_0_iff_not_bit [of p 13] by simp_all

lemma small_bit:
  assumes "n \<le> 0x3ff" and "10 \<le> k"
  shows "\<not> bit (of_nat n :: u16) k"
proof -
  have "(1024::nat) \<le> 2 ^ k"
    using power_increasing [of 10 k "2::nat"] assms(2) by simp
  then have "n div 2 ^ k = 0" using assms(1) by (intro div_less) linarith
  then show ?thesis by (simp add: bit_of_nat_iff bit_iff_odd [of n])
qed

lemma properties_flags:
  fixes n :: nat and p :: u16
  assumes "n \<le> 0x3ff" and p: "p = of_nat n OR (if v then 0x4000 else 0)"
  shows "p AND 0x4000 \<noteq> 0 \<longleftrightarrow> v" and "p AND 0x2000 = 0" and "unat (p AND 0x03ff) = n"
proof -
  have flag: "(if v then 0x4000 else 0 :: u16) = push_bit 14 (of_bool v)" by simp
  have bits: "bit p k \<longleftrightarrow> bit (of_nat n :: u16) k \<or> v \<and> k = 14" for k
    unfolding p flag by (auto simp: bit_simps)
  show "p AND 0x4000 \<noteq> 0 \<longleftrightarrow> v" "p AND 0x2000 = 0"
    using small_bit [OF assms(1)] by (simp_all add: and_flag bits)
  have "p AND 0x03ff = take_bit 10 p" by (simp add: take_bit_eq_mask mask_eq_exp_minus_1)
  also have "\<dots> = of_nat n"
  proof (rule bit_word_eqI)
    fix k
    show "bit (take_bit 10 p) k \<longleftrightarrow> bit (of_nat n :: u16) k"
      using small_bit [OF assms(1), of k] by (cases "k < 10") (simp_all add: bit_take_bit_iff bits)
  qed
  finally have "p AND 0x03ff = of_nat n" .
  then show "unat (p AND 0x03ff) = n"
    using assms(1) by (simp add: unat_of_nat)
qed

lemma frame_write_Inr:
  assumes "flow_jtt808_frame_write message_id device_id v2019 serial body bytes x = Inr y"
  shows "\<exists>h. flow_jtt808_frame_header message_id device_id v2019 serial (length bytes) 17 = Inr h \<and>
    y = frame_put (jtt808_frame h bytes) x \<and>
    length (jtt808_frame h bytes) \<le> length (fo_bytes x) \<and> fo_data x \<noteq> 0"
proof -
  obtain h where h:
    "flow_jtt808_frame_header message_id device_id v2019 serial (length bytes) 17 = Inr h"
    using assms by (auto simp: flow_jtt808_frame_write_def guards)
  let ?chk = "xor_bytes (h @ bytes)"
  have nz: "fo_data x \<noteq> 0"
    using assms unfolding flow_jtt808_frame_write_def by (simp only: guards) blast
  have fits: "flow_jtt808_escaped_size h + flow_jtt808_escaped_size bytes +
      flow_jtt808_escaped_size [?chk] + 2 \<le> length (fo_bytes x)"
    using assms unfolding flow_jtt808_frame_write_def h Let_def
    by (simp only: and_then.simps guards not_less)
  have "y = frame_put (jtt808_frame h bytes) x"
    using assms fits unfolding flow_jtt808_frame_write_def h Let_def
    by (simp only: and_then.simps guards escape_write_eq)
      (auto simp: length_jtt808_escape jtt808_frame_def split: if_splits)
  moreover have "length (jtt808_frame h bytes) \<le> length (fo_bytes x)"
    using fits by (simp add: jtt808_frame_def length_escape_byte length_jtt808_escape)
  ultimately show ?thesis using h nz by blast
qed

section \<open>Decoding an encoded frame\<close>

lemma captured_slice:
  "a + n \<le> k \<Longrightarrow> a + n \<le> length d \<Longrightarrow> take n (drop a (captured k d)) = take n (drop a d)"
  by (rule nth_equalityI) (auto simp: captured_nth)

lemma length_jtt808_header:
  "length bcd = (if v then 10 else 6) \<Longrightarrow>
     length (jtt808_header i v bcd serial n) = (if v then 17 else 12)"
  by (simp add: jtt808_header_def Let_def)

lemma jtt808_header_bytes:
  fixes n :: nat
  assumes "length bcd = (if v then 10 else 6)"
  defines "p \<equiv> (of_nat n OR (if v then 0x4000 else 0)) :: u16"
  shows "jtt808_header i v bcd serial n ! 0 = hi8 i" "jtt808_header i v bcd serial n ! 1 = lo8 i"
    "jtt808_header i v bcd serial n ! 2 = hi8 p" "jtt808_header i v bcd serial n ! 3 = lo8 p"
    "v \<Longrightarrow> jtt808_header i v bcd serial n ! 4 = 1"
    "take (if v then 10 else 6) (drop (if v then 5 else 4) (jtt808_header i v bcd serial n)) = bcd"
    "jtt808_header i v bcd serial n ! (if v then 15 else 10) = hi8 serial"
    "jtt808_header i v bcd serial n ! (if v then 16 else 11) = lo8 serial"
  using assms by (simp_all add: jtt808_header_def Let_def nth_append)

lemma jtt808_frame_state:
  fixes i serial :: u16
  assumes "length bcd = (if v then 10 else 6)" and "length body \<le> 0x3ff"
  defines "h \<equiv> jtt808_header i v bcd serial (length body)"
  defines "st \<equiv> jtt808_after (h @ body @ [xor_bytes (h @ body)])"
  shows "jd_header_known st" "jd_checksum st = 0" "jd_message_id st = i"
    "jd_decoded_size st = jd_header_size st + jd_body_size st + 1"
    "jd_properties st AND 0x4000 \<noteq> 0 \<longleftrightarrow> v" "jd_properties st AND 0x2000 = 0"
    "jd_base_header_size st = (if v then 17 else 12)" "jd_header_size st = (if v then 17 else 12)"
    "jd_body_size st = length body" "jd_semantic st = None"
    "\<And>k. k < length h \<Longrightarrow> jd_header st ! k = h ! k"
    "take (if v then 10 else 6) (drop (if v then 5 else 4) (jd_header st)) = bcd"
proof -
  let ?d = "h @ body @ [xor_bytes (h @ body)]"
  let ?p = "(of_nat (length body) OR (if v then 0x4000 else 0)) :: u16"
  have lh: "length h = (if v then 17 else 12)"
    unfolding h_def by (rule length_jtt808_header [OF assms(1)])
  have d: "?d ! k = h ! k" if "k < length h" for k using that by (simp add: nth_append)
  have k4: "0 < length h" "1 < length h" "2 < length h" "3 < length h" "4 \<le> length ?d"
    using lh by (simp_all split: if_splits)
  have bytes: "?d ! 0 = hi8 i" "?d ! 1 = lo8 i" "?d ! 2 = hi8 ?p" "?d ! 3 = lo8 ?p"
    using d k4 jtt808_header_bytes(1-4) [OF assms(1), of i serial "length body"]
    by (simp_all add: h_def)
  note flags = properties_flags [OF assms(2) refl, of v]
  show known: "jd_header_known st" and "jd_semantic st = None" "jd_checksum st = 0"
    using k4 by (simp_all add: st_def jtt808_after_def Let_def xor_bytes_frame)
  show "jd_message_id st = i" "jd_properties st AND 0x4000 \<noteq> 0 \<longleftrightarrow> v"
    "jd_properties st AND 0x2000 = 0"
    "jd_base_header_size st = (if v then 17 else 12)"
    and hs: "jd_header_size st = (if v then 17 else 12)" "jd_body_size st = length body"
    unfolding st_def jtt808_after_def Let_def
    using k4(5) flags by (simp_all only: bytes jtt808_state.simps if_True be16_parts
        header_size_of_def base_size_of_def) simp_all
  show "jd_decoded_size st = jd_header_size st + jd_body_size st + 1"
    using hs lh by (simp add: st_def jtt808_after_def Let_def)
  show "jd_header st ! k = h ! k" if "k < length h" for k
    using that lh d [OF that]
    by (simp add: st_def jtt808_after_def Let_def captured_nth JTT808_MAX_HEADER_SIZE_def
        split: if_splits)
  have "take (if v then 10 else 6) (drop (if v then 5 else 4) (jd_header st)) =
      take (if v then 10 else 6) (drop (if v then 5 else 4) ?d)"
    unfolding st_def jtt808_after_def Let_def jtt808_state.simps
    by (rule captured_slice) (use lh in \<open>simp_all add: JTT808_MAX_HEADER_SIZE_def\<close>)
  also have "\<dots> = bcd"
    using lh jtt808_header_bytes(6) [OF assms(1), of i serial "length body"]
    by (simp add: h_def split: if_splits)
  finally show "take (if v then 10 else 6) (drop (if v then 5 else 4) (jd_header st)) = bcd" .
qed

lemma jtt808_identity_frame:
  fixes i serial :: u16
  assumes "length bcd = (if v then 10 else 6)" and "length body \<le> 0x3ff"
    and "bcd_digits bcd = Inr dev"
  defines "h \<equiv> jtt808_header i v bcd serial (length body)"
  shows "jtt808_identity (jtt808_after (h @ body @ [xor_bytes (h @ body)])) = Inr (dev, ucast serial)"
proof -
  let ?st = "jtt808_after (h @ body @ [xor_bytes (h @ body)])"
  note st = jtt808_frame_state [OF assms(1,2), where i = i and serial = serial, folded h_def]
  note hb = jtt808_header_bytes [OF assms(1), of i serial "length body", folded h_def]
  have lh: "length h = (if v then 17 else 12)"
    unfolding h_def by (rule length_jtt808_header [OF assms(1)])
  have serial: "jd_header ?st ! (if v then 15 else 10) = hi8 serial"
    "jd_header ?st ! (if v then 16 else 11) = lo8 serial"
    using st(11) lh hb(7,8) by simp_all
  have "v \<Longrightarrow> jd_header ?st ! 4 = 1"
    using st(11) [of 4] lh hb(5) by simp
  then show ?thesis
    unfolding jtt808_identity_def Let_def st(5-7) st(10)
    using serial st(12) assms(3)
    by (cases v) (simp_all add: flow_jtt808_device_id_def assms(1) protocol_limits)
qed

lemma jtt808_decode_frame:
  assumes "length bcd = (if v then 10 else 6)" and "length body \<le> 0x3ff"
    and "bcd_digits bcd = Inr dev" and "fv_data f \<noteq> 0"
    and "fv_bytes f = jtt808_frame (jtt808_header i v bcd serial (length body)) body"
  shows "flow_jtt808_decode_ingress f m None =
    and_then (set_operation (jtt808_operation i) (ctext_of ''message-'' @ hex4 i)
      (m\<lparr>pm_device_id := dev, pm_message_type := ucast i, pm_sequence := ucast serial\<rparr>))
      (\<lambda>m. Inr (m, None))"
proof -
  let ?h = "jtt808_header i v bcd serial (length body)"
  let ?st = "jtt808_after (?h @ body @ [xor_bytes (?h @ body)])"
  note st = jtt808_frame_state [OF assms(1,2), where i = i and serial = serial]
  have scan: "jtt808_scan (butlast (tl (fv_bytes f))) (jtt808_start None) = Inr ?st"
    unfolding assms(5) jtt808_frame_ends(4) jtt808_scan_escape by (rule jtt808_steps_after)
  have ends: "\<not> (fv_data f = 0 \<or> length (fv_bytes f) < 2 \<or> fv_bytes f ! 0 \<noteq> 0x7e \<or>
      fv_bytes f ! (length (fv_bytes f) - 1) \<noteq> 0x7e)"
    using assms(4) jtt808_frame_ends(1-3) [of ?h body] unfolding assms(5) by simp
  have size: "\<not> (\<not> jd_header_known ?st \<or> jd_checksum ?st \<noteq> 0 \<or>
      jd_body_size ?st > unat SIZE_MAX - jd_header_size ?st - 1 \<or>
      jd_decoded_size ?st \<noteq> jd_header_size ?st + jd_body_size ?st + 1)"
    using st(1,2,4) assms(2) unfolding st(8,9) unat_UINT64_MAX by simp
  show ?thesis
    unfolding flow_jtt808_decode_ingress_def Let_def scan if_not_P [OF ends] option.case if_False
      and_then.simps if_not_P [OF size] jtt808_identity_frame [OF assms(1-3)] prod.case
    by (simp add: jtt808_publish_content_def st(3,10))
qed

section \<open>Accepted frames\<close>

text \<open>Undoing the escaping of any byte string.\<close>

fun jtt808_unescape :: "u8 list \<Rightarrow> u8 list option" where
  "jtt808_unescape [] = Some []"
| "jtt808_unescape (b # bs) =
     (if b = 0x7d then
        (case bs of
           [] \<Rightarrow> None
         | e # rest \<Rightarrow>
             if e = 0x01 then map_option (Cons 0x7d) (jtt808_unescape rest)
             else if e = 0x02 then map_option (Cons 0x7e) (jtt808_unescape rest)
             else None)
      else map_option (Cons b) (jtt808_unescape bs))"

lemma jtt808_unescape_escape: "jtt808_unescape (jtt808_escape bs) = Some bs"
  by (induction bs) (auto simp: escape_byte_def)

lemma jtt808_scan_unescape:
  "jtt808_unescape bs = Some d \<Longrightarrow> jtt808_scan bs st = jtt808_steps d st"
proof (induction bs arbitrary: d st rule: jtt808_unescape.induct)
  case (2 b bs)
  have cong: "and_then x f = and_then x g" if "\<And>s. f s = g s" for x :: "status + jtt808_state" and f g
    using that by (cases x) auto
  show ?case
    using 2 by (cases bs) (auto split: if_splits intro!: cong)
qed simp

lemma jtt808_scan_malformed:
  "jtt808_unescape bs = None \<Longrightarrow> jtt808_scan bs (jtt808_after d) = Inl SALTS_EPROTO"
proof (induction bs arbitrary: d rule: jtt808_unescape.induct)
  case (2 b bs)
  show ?case
  proof (cases "b = 0x7d")
    case True
    then show ?thesis using 2 by (cases bs) (auto simp: jtt808_step_after split: if_splits)
  next
    case False
    then have "jtt808_unescape bs = None" using "2.prems" by simp
    then have "jtt808_scan bs (jtt808_after (d @ [b])) = Inl SALTS_EPROTO"
      by (rule "2.IH" (3) [OF False])
    then show ?thesis using False by (simp add: jtt808_step_after)
  qed
qed simp

lemma unescape_scan_eq:
  "unescape_scan bs capture n c =
     (case jtt808_unescape bs of
        None \<Rightarrow> Inl SALTS_EPROTO
      | Some d \<Rightarrow> Inr (capture_all d n capture, n + length d, fold (\<lambda>b c. c XOR b) d c))"
proof (induction bs arbitrary: capture n c rule: jtt808_unescape.induct)
  case (2 b bs)
  then show ?case by (cases bs) (auto split: option.split)
qed simp

text \<open>An accepted frame: what the decoder found in it.\<close>

definition jtt808_accepted :: "frame_view \<Rightarrow> u8 list \<Rightarrow> bool" where
  "jtt808_accepted f d \<longleftrightarrow>
     fv_data f \<noteq> 0 \<and> 2 \<le> length (fv_bytes f) \<and> fv_bytes f ! 0 = 0x7e \<and>
     fv_bytes f ! (length (fv_bytes f) - 1) = 0x7e \<and>
     jtt808_unescape (butlast (tl (fv_bytes f))) = Some d \<and> 4 \<le> length d \<and> xor_bytes d = 0 \<and>
     length d = header_size_of (be16 (d ! 2) (d ! 3)) + unat (be16 (d ! 2) (d ! 3) AND 0x03ff) + 1"

lemma jtt808_inspect_Inr:
  assumes "flow_jtt808_decode_ingress f m None = Inr (m', c)"
  shows "\<exists>d dev serial. jtt808_accepted f d \<and> jtt808_identity (jtt808_after d) = Inr (dev, serial) \<and>
    set_operation (jtt808_operation (be16 (d ! 0) (d ! 1))) (ctext_of ''message-'' @ hex4 (be16 (d ! 0) (d ! 1)))
      (m\<lparr>pm_device_id := dev, pm_message_type := ucast (be16 (d ! 0) (d ! 1)), pm_sequence := serial\<rparr>) =
      Inr m' \<and> c = None"
proof -
  let ?inner = "butlast (tl (fv_bytes f))"
  have ends: "fv_data f \<noteq> 0" "2 \<le> length (fv_bytes f)" "fv_bytes f ! 0 = 0x7e"
    "fv_bytes f ! (length (fv_bytes f) - 1) = 0x7e"
    using assms unfolding flow_jtt808_decode_ingress_def Let_def by (simp_all add: guards)
  obtain d where d: "jtt808_unescape ?inner = Some d"
    using assms jtt808_scan_malformed [of ?inner "[]"]
    unfolding flow_jtt808_decode_ingress_def Let_def jtt808_after_Nil
    by (cases "jtt808_unescape ?inner") (auto simp: guards)
  then have scan: "jtt808_scan ?inner (jtt808_start None) = Inr (jtt808_after d)"
    by (simp add: jtt808_scan_unescape jtt808_steps_after)
  have rest: "jd_header_known (jtt808_after d) \<and> jd_checksum (jtt808_after d) = 0 \<and>
    jd_decoded_size (jtt808_after d) = jd_header_size (jtt808_after d) + jd_body_size (jtt808_after d) + 1 \<and>
    and_then (jtt808_identity (jtt808_after d)) (\<lambda>(dev, serial).
      and_then (jtt808_publish_content (jtt808_after d)) (\<lambda>content.
      and_then (set_operation (jtt808_operation (jd_message_id (jtt808_after d)))
        (ctext_of ''message-'' @ hex4 (jd_message_id (jtt808_after d)))
        (m\<lparr>pm_device_id := dev, pm_message_type := ucast (jd_message_id (jtt808_after d)),
            pm_sequence := serial\<rparr>)) (\<lambda>m. Inr (m, content)))) = Inr (m', c)"
    using assms unfolding flow_jtt808_decode_ingress_def Let_def scan
    by (simp only: and_then.simps option.case if_False guards de_Morgan_disj not_not)
  have "jtt808_publish_content (jtt808_after d) = Inr None"
    by (simp add: jtt808_publish_content_def jtt808_after_def Let_def)
  moreover have known: "4 \<le> length d"
    using rest by (simp add: jtt808_after_def Let_def)
  ultimately show ?thesis
    using rest ends d
    by (auto simp: guards jtt808_accepted_def jtt808_after_def Let_def)
qed

lemma digit_range:
  fixes x :: u8
  assumes "x \<le> 9"
  shows "\<not> 0x30 + x < 0x30" and "\<not> 0x30 + x > 0x39"
proof -
  have "unat x \<le> 9" using assms by (simp add: word_le_nat_alt)
  then have "unat (0x30 + x) = 0x30 + unat x" by (simp add: unat_word_ariths)
  then show "\<not> 0x30 + x < 0x30" and "\<not> 0x30 + x > 0x39"
    using \<open>unat x \<le> 9\<close> by (simp_all add: word_less_nat_alt)
qed

lemma bcd_digits_write: "bcd_digits bs = Inr ds \<Longrightarrow> bcd_write ds = Inr bs"
proof (induction bs arbitrary: ds)
  case (Cons b bs)
  then obtain es where es: "bcd_digits bs = Inr es"
    and ds: "ds = (0x30 + high_nibble b) # (0x30 + low_nibble b) # es"
    and le: "high_nibble b \<le> 9" "low_nibble b \<le> 9"
    by (auto simp: guards not_less)
  show ?case
    using Cons.IH [OF es] digit_range [OF le(1)] digit_range [OF le(2)]
    by (simp add: ds nibbles_split)
qed simp

lemma length_bcd_digits: "bcd_digits bs = Inr ds \<Longrightarrow> length ds = 2 * length bs"
  using bcd_write_digits bcd_digits_write by blast

definition jtt808_version_2019 :: "u8 list \<Rightarrow> bool" where
  "jtt808_version_2019 d \<longleftrightarrow> be16 (d ! 2) (d ! 3) AND 0x4000 \<noteq> 0"

definition jtt808_phone :: "u8 list \<Rightarrow> u8 list" where
  "jtt808_phone d = take (if jtt808_version_2019 d then 10 else 6)
     (drop (if jtt808_version_2019 d then 5 else 4) d)"

text \<open>The position of the serial in the decoded bytes.\<close>

definition jtt808_serial_at :: "u8 list \<Rightarrow> nat" where
  "jtt808_serial_at d = (if jtt808_version_2019 d then 15 else 10)"

lemma jtt808_accepted_length:
  "jtt808_accepted f d \<Longrightarrow> length d \<ge> (if jtt808_version_2019 d then 18 else 13)"
  by (auto simp: jtt808_accepted_def header_size_of_def base_size_of_def jtt808_version_2019_def)

lemma jtt808_identity_Inr:
  assumes "jtt808_accepted f d" and "jtt808_identity (jtt808_after d) = Inr (dev, serial)"
  shows "bcd_digits (jtt808_phone d) = Inr dev"
    and "serial = ucast (be16 (d ! jtt808_serial_at d) (d ! (jtt808_serial_at d + 1)))"
proof -
  let ?v = "jtt808_version_2019 d"
  have len: "length d \<ge> (if ?v then 18 else 13)" by (rule jtt808_accepted_length [OF assms(1)])
  have known: "4 \<le> length d" using len by (simp split: if_splits)
  then have flags: "jd_properties (jtt808_after d) = be16 (d ! 2) (d ! 3)"
    and hdr: "jd_header (jtt808_after d) = captured 21 d"
    by (simp_all add: jtt808_after_def Let_def JTT808_MAX_HEADER_SIZE_def)
  have "flow_jtt808_device_id (take (if ?v then 10 else 6) (drop (if ?v then 5 else 4) (captured 21 d)))
      (PROTOCOL_DEVICE_ID_MAX + 1) = Inr dev \<and>
    serial = ucast (be16 (captured 21 d ! jtt808_serial_at d) (captured 21 d ! (jtt808_serial_at d + 1)))"
    using assms(2) unfolding jtt808_identity_def Let_def flags hdr jtt808_version_2019_def
      jtt808_serial_at_def
    by (simp only: guards prod.inject Inr_inject) simp
  moreover have "take (if ?v then 10 else 6) (drop (if ?v then 5 else 4) (captured 21 d)) =
      jtt808_phone d"
    unfolding jtt808_phone_def by (rule captured_slice) (use len in \<open>simp_all split: if_splits\<close>)
  moreover have "captured 21 d ! k = d ! k" if "k \<le> jtt808_serial_at d + 1" for k
    using that len by (intro captured_nth) (simp_all add: jtt808_serial_at_def split: if_splits)
  ultimately show "bcd_digits (jtt808_phone d) = Inr dev"
    and "serial = ucast (be16 (d ! jtt808_serial_at d) (d ! (jtt808_serial_at d + 1)))"
    by (simp_all add: flow_jtt808_device_id_def split: if_splits)
qed

definition jtt808_result :: "status \<Rightarrow> u8" where
  "jtt808_result status = (if status = SALTS_OK then 0 else if status = SALTS_ENOTSUP then 3 else 1)"

definition jtt808_ack_body :: "u8 list \<Rightarrow> status \<Rightarrow> u8 list" where
  "jtt808_ack_body d status =
     [d ! jtt808_serial_at d, d ! (jtt808_serial_at d + 1), d ! 0, d ! 1, jtt808_result status]"

lemma jtt808_reply_prepare_eq:
  assumes acc: "jtt808_accepted f d" and "bcd_digits (jtt808_phone d) = Inr dev"
  shows "flow_jtt808_reply_prepare (Some c) f status =
    (let next = (if c \<ge> 0xffff then 1 else c + 1)
     in if ucast next = (0::u16) then (Some next, Inl SALTS_ERANGE)
        else (Some next, Inr (dev, jtt808_version_2019 d, jtt808_ack_body d status, ucast next)))"
proof -
  let ?v = "jtt808_version_2019 d"
  have len: "length d \<ge> (if ?v then 18 else 13)" by (rule jtt808_accepted_length [OF acc])
  have un: "flow_jtt808_unescape f 32 = Inr (captured 32 d, length d, 0)"
    using acc capture_all_eq [of d "[]" 32]
    by (simp add: flow_jtt808_unescape_def Let_def unescape_scan_eq jtt808_accepted_def
        captured_Nil xor_bytes_def)
  have hdr: "captured 32 d ! k = d ! k" if "k \<le> jtt808_serial_at d + 1" for k
    using that len by (intro captured_nth) (simp_all add: jtt808_serial_at_def split: if_splits)
  have h: "captured 32 d ! 0 = d ! 0" "captured 32 d ! 1 = d ! 1" "captured 32 d ! 2 = d ! 2"
    "captured 32 d ! 3 = d ! 3" "captured 32 d ! jtt808_serial_at d = d ! jtt808_serial_at d"
    "captured 32 d ! (jtt808_serial_at d + 1) = d ! (jtt808_serial_at d + 1)"
    by (rule hdr; simp add: jtt808_serial_at_def)+
  have phone: "take (if ?v then 10 else 6) (drop (if ?v then 5 else 4) (captured 32 d)) =
      jtt808_phone d"
    unfolding jtt808_phone_def by (rule captured_slice) (use len in \<open>simp_all split: if_splits\<close>)
  have dev: "flow_jtt808_device_id (jtt808_phone d) 21 = Inr dev"
    using assms(2) len by (simp add: flow_jtt808_device_id_def jtt808_phone_def split: if_splits)
  have ok: "\<not> (0 \<noteq> (0::u8) \<or> length d < 5)" using len by (simp split: if_splits)
  show ?thesis
    unfolding flow_jtt808_reply_prepare_def un sum.case prod.case if_not_P [OF ok] Let_def h(1-4)
    unfolding jtt808_version_2019_def [symmetric]
    unfolding jtt808_serial_at_def [symmetric] phone dev h(5-6) sum.case
    by (simp add: flow_jtt808_next_serial_def Let_def jtt808_ack_body_def jtt808_result_def)
qed

lemma jtt808_operation_ok: "jtt808_operation i = Some s \<Longrightarrow> name_ok s"
  by (auto simp: jtt808_operation_def name_ok_def ctext_of_def plain_def split: if_splits)

lemma jtt808_message_ok: "segment_ok (ctext_of ''message-'' @ hex4 i) PROTOCOL_OPERATION_MAX"
proof (rule segment_ok_format)
  show "name_ok ''message-''" by (simp add: name_ok_def ctext_of_def plain_def)
qed (auto intro: plain_hex4)

section \<open>The codec's contract\<close>

lemma bcd_digits_plain: "bcd_digits bs = Inr ds \<Longrightarrow> c \<in> set ds \<Longrightarrow> plain c"
  by (induction bs arbitrary: ds) (auto simp: guards not_less intro: plain_digit)

lemma jtt808_phone_device:
  assumes "jtt808_accepted f d" and "bcd_digits (jtt808_phone d) = Inr dev"
  shows "segment_ok dev PROTOCOL_DEVICE_ID_MAX"
proof -
  have "length (jtt808_phone d) = (if jtt808_version_2019 d then 10 else 6)"
    using jtt808_accepted_length [OF assms(1)] by (simp add: jtt808_phone_def split: if_splits)
  then have "length dev = (if jtt808_version_2019 d then 20 else 12)"
    using length_bcd_digits [OF assms(2)] by simp
  then show ?thesis
    using bcd_digits_plain [OF assms(2)] by (auto simp: segment_ok_iff protocol_limits split: if_splits)
qed

lemma jtt808_inspect_accepted:
  assumes "flow_jtt808_inspect v f m = Inr m'"
  shows "\<exists>d dev oper. jtt808_accepted f d \<and> bcd_digits (jtt808_phone d) = Inr dev \<and>
    segment_ok dev PROTOCOL_DEVICE_ID_MAX \<and> segment_ok oper PROTOCOL_OPERATION_MAX \<and>
    m' = m\<lparr>pm_device_id := dev, pm_message_type := ucast (be16 (d ! 0) (d ! 1)),
      pm_sequence := ucast (be16 (d ! jtt808_serial_at d) (d ! (jtt808_serial_at d + 1))),
      pm_operation := oper\<rparr>"
proof -
  obtain c where "flow_jtt808_decode_ingress f m None = Inr (m', c)"
    using assms by (auto simp: flow_jtt808_inspect_def guards)
  from jtt808_inspect_Inr [OF this] obtain d dev serial where
    acc: "jtt808_accepted f d" and id: "jtt808_identity (jtt808_after d) = Inr (dev, serial)"
    and so: "set_operation (jtt808_operation (be16 (d ! 0) (d ! 1)))
      (ctext_of ''message-'' @ hex4 (be16 (d ! 0) (d ! 1)))
      (m\<lparr>pm_device_id := dev, pm_message_type := ucast (be16 (d ! 0) (d ! 1)),
         pm_sequence := serial\<rparr>) = Inr m'"
    by blast
  note ids = jtt808_identity_Inr [OF acc id]
  obtain oper where "m' = m\<lparr>pm_device_id := dev, pm_message_type := ucast (be16 (d ! 0) (d ! 1)),
      pm_sequence := serial, pm_operation := oper\<rparr>" "segment_ok oper PROTOCOL_OPERATION_MAX"
    using set_operation_sound [OF so _ jtt808_message_ok] jtt808_operation_ok by auto
  then show ?thesis using acc ids jtt808_phone_device [OF acc ids(1)] by blast
qed

lemma jtt808_inspect_sound: "flow_jtt808_inspect v f METADATA_INIT = Inr m \<Longrightarrow> metadata_sound m"
  by (auto dest!: jtt808_inspect_accepted simp: metadata_sound_def METADATA_INIT_def)

text \<open>What the codec writes, its decoder accepts.\<close>

lemma jtt808_written_frame:
  assumes "flow_jtt808_frame_write i (Some dev) v serial body bytes x = Inr y"
    and "jtt808_operation i = Some s" and "name_ok s"
  shows "\<exists>bs. y = frame_put bs x \<and> length bs \<le> length (fo_bytes x) \<and> bs \<noteq> [] \<and>
    (\<forall>g m. fv_data g \<noteq> 0 \<longrightarrow> fv_bytes g = bs \<longrightarrow> flow_jtt808_inspect ver g m =
       Inr (m\<lparr>pm_device_id := dev, pm_message_type := ucast i, pm_sequence := ucast serial,
              pm_operation := ctext_of s\<rparr>))"
proof -
  obtain h where h: "flow_jtt808_frame_header i (Some dev) v serial (length bytes) 17 = Inr h"
    and y: "y = frame_put (jtt808_frame h bytes) x"
    "length (jtt808_frame h bytes) \<le> length (fo_bytes x)"
    using frame_write_Inr [OF assms(1)] by blast
  obtain bcd where bcd: "bcd_write dev = Inr bcd" "length bcd = (if v then 10 else 6)"
    and hh: "h = jtt808_header i v bcd serial (length bytes)"
    using frame_header_Inr(3) [OF h] by blast
  have n: "length bytes \<le> 0x3ff" by (rule frame_header_Inr(2) [OF h])
  have "flow_jtt808_inspect ver g m = Inr (m\<lparr>pm_device_id := dev, pm_message_type := ucast i,
      pm_sequence := ucast serial, pm_operation := ctext_of s\<rparr>)"
    if "fv_data g \<noteq> 0" "fv_bytes g = jtt808_frame h bytes" for g m
    using jtt808_decode_frame [OF bcd(2) n conjunct1 [OF bcd_write_digits [OF bcd(1)]] that(1)
        that(2) [unfolded hh], of m]
    by (simp add: flow_jtt808_inspect_def assms(2) set_operation_name [OF assms(3)])
  then show ?thesis using y by (auto simp: jtt808_frame_def)
qed

lemma jtt808_next_serial:
  assumes "flow_jtt808_next_serial (Some c) = (c', serial)"
  shows "serial \<noteq> 0" and "c' = Some (ucast serial)" and "unat serial \<le> 0xffff"
proof -
  let ?n = "if c \<ge> 0xffff then 1 else c + 1"
  have n: "1 \<le> unat ?n" "unat ?n \<le> 0xffff"
    by (auto simp: word_le_nat_alt not_le unat_word_ariths)
  have s: "serial = ucast ?n" "c' = Some ?n"
    using assms by (simp_all add: flow_jtt808_next_serial_def Let_def)
  have "unat serial = unat ?n"
    using n(2) unfolding s by (simp add: unsigned_ucast_eq take_bit_nat_eq_self)
  then show "serial \<noteq> 0" "unat serial \<le> 0xffff" and "c' = Some (ucast serial)"
    using n s by (auto simp: word_unat_eq_iff unsigned_ucast_eq take_bit_nat_eq_self)
qed

lemma jtt808_reply_accepted:
  assumes "flow_jtt808_inspect v f METADATA_INIT = Inr m"
    and "flow_jtt808_reply s v f st x = (s', Inr y)"
  shows "\<exists>bs. y = frame_put bs x \<and> length bs \<le> length (fo_bytes x) \<and> bs \<noteq> [] \<and>
    (\<forall>g m'. fv_data g \<noteq> 0 \<longrightarrow> fv_bytes g = bs \<longrightarrow> flow_jtt808_inspect v g m' =
       Inr (m'\<lparr>pm_device_id := pm_device_id m, pm_message_type := 0x8001,
              pm_sequence := ucast (the s'), pm_operation := ctext_of ''platform-ack''\<rparr>))"
proof -
  obtain d dev where d: "jtt808_accepted f d" "bcd_digits (jtt808_phone d) = Inr dev"
    and dev: "pm_device_id m = dev"
    using jtt808_inspect_accepted [OF assms(1)] by auto
  obtain c where s: "s = Some c"
    using assms(2) by (cases s) (auto simp: flow_jtt808_reply_def flow_jtt808_reply_prepare_def)
  obtain c' serial where n: "flow_jtt808_next_serial (Some c) = (c', serial)" by fastforce
  note ns = jtt808_next_serial [OF n]
  have "s' = c'" and
    "flow_jtt808_frame_write 0x8001 (Some dev) (jtt808_version_2019 d) serial 1 (jtt808_ack_body d st) x = Inr y"
    using assms(2) n ns(1) unfolding flow_jtt808_reply_def s
      jtt808_reply_prepare_eq [OF d] flow_jtt808_next_serial_def
    by (auto simp: Let_def)
  moreover have "jtt808_operation 0x8001 = Some ''platform-ack''"
    by (simp add: jtt808_operation_def)
  moreover from jtt808_operation_ok [OF this] have "name_ok ''platform-ack''" .
  ultimately show ?thesis
    using jtt808_written_frame [of "0x8001" dev _ serial 1 _ x y "''platform-ack''" v] dev ns(2)
    by (auto simp: ucast_widen)
qed

lemma jtt808_message_id_operation:
  assumes "flow_jtt808_message_id (Some t) = Inr i"
  shows "\<exists>s. jtt808_operation i = Some s \<and> t = ctext_of s"
  using assms by (auto simp: flow_jtt808_message_id_def jtt808_operation_def split: if_splits)

lemma jtt808_encode_accepted:
  assumes "flow_jtt808_encode v c x = Inr y" and "cv_device_id c = Some dev"
    and "cv_operation c = Some oper"
  shows "\<exists>bs i. y = frame_put bs x \<and> length bs \<le> length (fo_bytes x) \<and> bs \<noteq> [] \<and>
    flow_jtt808_message_id (Some oper) = Inr i \<and>
    (\<forall>g m. fv_data g \<noteq> 0 \<longrightarrow> fv_bytes g = bs \<longrightarrow> flow_jtt808_inspect v g m =
       Inr (m\<lparr>pm_device_id := dev, pm_message_type := ucast i, pm_sequence := cv_sequence c,
              pm_operation := oper\<rparr>))"
proof -
  obtain i where i: "flow_jtt808_message_id (Some oper) = Inr i"
    and w: "flow_jtt808_frame_write i (Some dev) True (ucast (cv_sequence c)) (cv_payload c)
      (cv_bytes c) x = Inr y" and range: "\<not> cv_sequence c > 0xffff"
    using assms by (auto simp: flow_jtt808_encode_def guards)
  obtain s where s: "jtt808_operation i = Some s" "oper = ctext_of s"
    using jtt808_message_id_operation [OF i] by blast
  show ?thesis
    using ucast_narrow [OF range] jtt808_written_frame [OF w s(1) jtt808_operation_ok [OF s(1)]] s(2) i by auto
qed

interpretation jtt808: protocol_codec flow_jtt808_inspect flow_jtt808_reply flow_jtt808_encode
proof
  show "flow_jtt808_inspect v f METADATA_INIT = Inr m \<Longrightarrow> metadata_sound m" for v f m
    by (rule jtt808_inspect_sound)
next
  fix v f m s st x s' y
  assume "flow_jtt808_inspect v f METADATA_INIT = Inr m" "flow_jtt808_reply s v f st x = (s', Inr y)"
  then obtain bs where bs: "y = frame_put bs x" "length bs \<le> length (fo_bytes x)"
    "\<forall>g m'. fv_data g \<noteq> 0 \<longrightarrow> fv_bytes g = bs \<longrightarrow> flow_jtt808_inspect v g m' =
       Inr (m'\<lparr>pm_device_id := pm_device_id m, pm_message_type := 0x8001,
              pm_sequence := ucast (the s'), pm_operation := ctext_of ''platform-ack''\<rparr>)"
    using jtt808_reply_accepted by blast
  then show "\<exists>bs x'. y = frame_put bs x' \<and> fo_data x' = fo_data x \<and> length bs \<le> length (fo_bytes x') \<and>
      (bs \<noteq> [] \<longrightarrow> (\<forall>g. fv_data g \<noteq> 0 \<longrightarrow> fv_bytes g = bs \<longrightarrow>
        (\<exists>m'. flow_jtt808_inspect v g METADATA_INIT = Inr m' \<and> pm_device_id m' = pm_device_id m)))"
    by (intro exI [of _ bs] exI [of _ x]) auto
next
  fix v c x y dev oper
  assume "flow_jtt808_encode v c x = Inr y" "cv_device_id c = Some dev" "cv_operation c = Some oper"
  from jtt808_encode_accepted [OF this]
  show "\<exists>bs. y = frame_put bs x \<and> length bs \<le> length (fo_bytes x) \<and> bs \<noteq> [] \<and>
      (\<forall>g. fv_data g \<noteq> 0 \<longrightarrow> fv_bytes g = bs \<longrightarrow>
        (\<exists>m'. flow_jtt808_inspect v g METADATA_INIT = Inr m' \<and> pm_operation m' = oper \<and>
              pm_device_id m' \<in> {[], dev}))"
    by fastforce
qed

section \<open>Semantic decoding\<close>

text \<open>A semantic decode does what an inspection does and more: forgetting the content it keeps
  gives the inspection's state.\<close>

definition jtt808_forget :: "jtt808_state \<Rightarrow> jtt808_state" where
  "jtt808_forget st = st\<lparr>jd_semantic := None, jd_semantic_type := PROTOCOL_SEMANTIC_TYPE_NONE\<rparr>"

lemma forget_sel [simp]:
  "jd_header (jtt808_forget st) = jd_header st"
  "jd_decoded_size (jtt808_forget st) = jd_decoded_size st"
  "jd_header_size (jtt808_forget st) = jd_header_size st"
  "jd_base_header_size (jtt808_forget st) = jd_base_header_size st"
  "jd_body_size (jtt808_forget st) = jd_body_size st"
  "jd_message_id (jtt808_forget st) = jd_message_id st"
  "jd_properties (jtt808_forget st) = jd_properties st"
  "jd_checksum (jtt808_forget st) = jd_checksum st"
  "jd_header_known (jtt808_forget st) = jd_header_known st"
  "jd_semantic (jtt808_forget st) = None"
  by (simp_all add: jtt808_forget_def)

lemma forget_capture: "jtt808_capture v (jtt808_forget st) = jtt808_forget (jtt808_capture v st)"
  by (simp add: jtt808_capture_def jtt808_forget_def)

lemma forget_read_header:
  "jtt808_read_header st = Inr st' \<Longrightarrow> jtt808_read_header (jtt808_forget st) = Inr (jtt808_forget st')"
  by (auto simp: jtt808_read_header_def jtt808_forget_def Let_def split: if_splits)

lemma forget_content:
  "jtt808_content v st = Inr st' \<Longrightarrow> jtt808_forget st' = jtt808_forget st"
  by (auto simp: jtt808_content_def jtt808_forget_def Let_def split: if_splits option.splits)

lemma content_forget: "jtt808_content v (jtt808_forget st) = Inr (jtt808_forget st)"
  by (simp add: jtt808_content_def jtt808_forget_def)

lemma forget_step:
  assumes "jtt808_step v st = Inr st'"
  shows "jtt808_step v (jtt808_forget st) = Inr (jtt808_forget st')"
proof -
  obtain s1 s2 where s: "jtt808_read_header (jtt808_capture v st) = Inr s1"
    "jtt808_content v s1 = Inr s2" "st' = s2\<lparr>jd_decoded_size := jd_decoded_size s2 + 1\<rparr>"
    using assms by (auto simp: jtt808_step_def guards)
  have "jtt808_step v (jtt808_forget st) =
      Inr ((jtt808_forget s1)\<lparr>jd_decoded_size := jd_decoded_size (jtt808_forget s1) + 1\<rparr>)"
    unfolding jtt808_step_def forget_capture forget_read_header [OF s(1)]
    by (simp add: content_forget)
  also have "\<dots> = Inr (jtt808_forget st')"
    using forget_content [OF s(2)] s(3) by (cases s1; cases s2) (simp add: jtt808_forget_def)
  finally show ?thesis .
qed

lemma forget_scan:
  "jtt808_scan bs st = Inr st' \<Longrightarrow> jtt808_scan bs (jtt808_forget st) = Inr (jtt808_forget st')"
proof (induction bs arbitrary: st st' rule: jtt808_unescape.induct)
  case (2 b bs)
  show ?case
  proof (cases "b = 0x7d")
    case True
    then show ?thesis
      using 2 by (cases bs) (auto simp: guards forget_step split: if_splits)
  next
    case False
    then obtain s where "jtt808_step b st = Inr s" "jtt808_scan bs s = Inr st'"
      using "2.prems" by (auto simp: guards)
    then show ?thesis using "2.IH" (3) [OF False] False by (simp add: forget_step)
  qed
qed simp

lemma forget_start: "jtt808_forget (jtt808_start s) = jtt808_start None"
  by (simp add: jtt808_forget_def jtt808_start_def)

lemma forget_identity:
  "jtt808_identity st = Inr r \<Longrightarrow> jtt808_identity (jtt808_forget st) = Inr r"
  unfolding jtt808_identity_def Let_def forget_sel by (simp only: guards simp_thms)

text \<open>The state of a semantic decode: the inspection's, the content so far and its type.\<close>

definition with_content :: "semantic_output \<Rightarrow> u32 \<Rightarrow> jtt808_state \<Rightarrow> jtt808_state" where
  "with_content s ty st = st\<lparr>jd_semantic := Some s, jd_semantic_type := ty\<rparr>"

lemma with_content_step:
  assumes "jtt808_step v st = Inr st'" and "jd_semantic st = None"
    and "jtt808_content v (with_content s ty (st'\<lparr>jd_decoded_size := jd_decoded_size st\<rparr>)) =
      Inr (with_content s' ty' (st'\<lparr>jd_decoded_size := jd_decoded_size st\<rparr>))"
  shows "jtt808_step v (with_content s ty st) = Inr (with_content s' ty' st')"
proof -
  obtain s1 where s1: "jtt808_read_header (jtt808_capture v st) = Inr s1"
    using assms(1) by (auto simp: jtt808_step_def guards)
  have none: "jd_semantic s1 = None" and size: "jd_decoded_size s1 = jd_decoded_size st"
    using s1 assms(2)
    by (auto simp: jtt808_read_header_def jtt808_capture_def Let_def split: if_splits)
  have st': "st' = s1\<lparr>jd_decoded_size := jd_decoded_size st + 1\<rparr>"
    using assms(1) none by (simp add: jtt808_step_def s1 jtt808_content_def size)
  have read: "jtt808_read_header (jtt808_capture v (with_content s ty st)) = Inr (with_content s ty s1)"
    using s1 by (auto simp: jtt808_read_header_def jtt808_capture_def with_content_def Let_def
        split: if_splits)
  have "st'\<lparr>jd_decoded_size := jd_decoded_size st\<rparr> = s1"
    using st' size by (cases s1) simp
  then have "jtt808_content v (with_content s ty s1) = Inr (with_content s' ty' s1)"
    using assms(3) by simp
  then show ?thesis
    unfolding jtt808_step_def read and_then.simps
    using st' size by (simp add: with_content_def)
qed

lemma after_content_step:
  assumes "jtt808_content v (with_content s ty ((jtt808_after (d @ [v]))\<lparr>jd_decoded_size := length d\<rparr>)) =
      Inr (with_content s' ty' ((jtt808_after (d @ [v]))\<lparr>jd_decoded_size := length d\<rparr>))"
  shows "jtt808_step v (with_content s ty (jtt808_after d)) =
      Inr (with_content s' ty' (jtt808_after (d @ [v])))"
proof (rule with_content_step [OF jtt808_step_after])
  show "jd_semantic (jtt808_after d) = None" by (simp add: jtt808_after_def Let_def)
  have "jd_decoded_size (jtt808_after d) = length d" by (simp add: jtt808_after_def Let_def)
  then show "jtt808_content v (with_content s ty ((jtt808_after (d @ [v]))\<lparr>jd_decoded_size :=
        jd_decoded_size (jtt808_after d)\<rparr>)) =
      Inr (with_content s' ty' ((jtt808_after (d @ [v]))\<lparr>jd_decoded_size :=
        jd_decoded_size (jtt808_after d)\<rparr>))"
    using assms by simp
qed

text \<open>What is known of the header in the bytes \<open>d\<close>.\<close>

definition transparent :: "u8 list \<Rightarrow> nat \<Rightarrow> nat \<Rightarrow> bool" where
  "transparent d hs n \<longleftrightarrow>
     4 \<le> length d \<and> be16 (d ! 0) (d ! 1) = 0x0900 \<and> header_size_of (be16 (d ! 2) (d ! 3)) = hs \<and>
     unat (be16 (d ! 2) (d ! 3) AND 0x03ff) = n"

lemma after_transparent:
  assumes "transparent d hs n"
  shows "jd_header_known (jtt808_after d)" "jd_header_size (jtt808_after d) = hs"
    "jd_body_size (jtt808_after d) = n" "jd_message_id (jtt808_after d) = 0x0900"
  using assms by (simp_all add: transparent_def jtt808_after_def Let_def)

lemma transparent_append: "transparent d hs n \<Longrightarrow> transparent (d @ e) hs n"
  by (auto simp: transparent_def nth_append)

lemma header_step:
  assumes "length d < 12 \<or> transparent d hs n \<and> length d < hs"
  shows "jtt808_step v (with_content s ty (jtt808_after d)) =
      Inr (with_content s ty (jtt808_after (d @ [v])))"
proof (rule after_content_step)
  let ?st = "jtt808_after (d @ [v])"
  have "\<not> (jd_header_known ?st \<and> length d \<ge> jd_header_size ?st)"
    using assms
  proof
    assume "length d < 12"
    moreover have "jd_header_known ?st \<Longrightarrow> 12 \<le> jd_header_size ?st"
      by (simp add: jtt808_after_def Let_def header_size_of_def base_size_of_def)
    ultimately show ?thesis by linarith
  next
    assume *: "transparent d hs n \<and> length d < hs"
    then show ?thesis using after_transparent(2) [OF transparent_append [of d hs n "[v]"]] by simp
  qed
  then show "jtt808_content v (with_content s ty (?st\<lparr>jd_decoded_size := length d\<rparr>)) =
      Inr (with_content s ty (?st\<lparr>jd_decoded_size := length d\<rparr>))"
    by (auto simp: jtt808_content_def with_content_def)
qed

lemma body_step:
  assumes "transparent d hs n" and "hs \<le> length d" and "length d < hs + n"
  shows "jtt808_content v (with_content s ty ((jtt808_after (d @ [v]))\<lparr>jd_decoded_size := length d\<rparr>)) =
    (if length d = hs
     then Inr (with_content s (ucast v) ((jtt808_after (d @ [v]))\<lparr>jd_decoded_size := length d\<rparr>))
     else if length d - hs - 1 \<ge> length (so_bytes s) then Inl SALTS_EMSGSIZE
     else if so_data s = 0 then Inl SALTS_EINVAL
     else Inr (with_content (s\<lparr>so_bytes := (so_bytes s)[length d - hs - 1 := v]\<rparr>) ty
            ((jtt808_after (d @ [v]))\<lparr>jd_decoded_size := length d\<rparr>)))"
  using assms after_transparent [OF transparent_append [OF assms(1), of "[v]"]]
  by (auto simp: jtt808_content_def with_content_def Let_def)

lemma type_step:
  assumes "transparent d hs n" and "length d = hs" and "0 < n"
  shows "jtt808_step v (with_content s ty (jtt808_after d)) =
    Inr (with_content s (ucast v) (jtt808_after (d @ [v])))"
  by (rule after_content_step, subst body_step [OF assms(1)]) (use assms in simp_all)

lemma last_step:
  assumes "transparent d hs n" and "hs + n \<le> length d"
  shows "jtt808_step v (with_content s ty (jtt808_after d)) =
    Inr (with_content s ty (jtt808_after (d @ [v])))"
proof (rule after_content_step)
  show "jtt808_content v (with_content s ty ((jtt808_after (d @ [v]))\<lparr>jd_decoded_size := length d\<rparr>)) =
      Inr (with_content s ty ((jtt808_after (d @ [v]))\<lparr>jd_decoded_size := length d\<rparr>))"
    using assms after_transparent [OF transparent_append [OF assms(1), of "[v]"]]
    by (auto simp: jtt808_content_def with_content_def)
qed

lemma header_steps:
  assumes "transparent h hs n" and "length h = hs" and "12 \<le> hs"
  shows "jtt808_steps h (jtt808_start (Some s)) =
    Inr (with_content s PROTOCOL_SEMANTIC_TYPE_NONE (jtt808_after h))"
proof -
  have "k \<le> hs \<Longrightarrow> jtt808_steps (take k h) (jtt808_start (Some s)) =
      Inr (with_content s PROTOCOL_SEMANTIC_TYPE_NONE (jtt808_after (take k h)))" for k
  proof (induction k)
    case 0
    then show ?case
      by (simp add: with_content_def jtt808_after_Nil [symmetric]) (simp add: jtt808_start_def)
  next
    case (Suc k)
    have "length (take k h) < 12 \<or> transparent (take k h) hs n \<and> length (take k h) < hs"
      using assms Suc.prems by (auto simp: transparent_def)
    then have "jtt808_step (h ! k) (with_content s PROTOCOL_SEMANTIC_TYPE_NONE (jtt808_after (take k h))) =
        Inr (with_content s PROTOCOL_SEMANTIC_TYPE_NONE (jtt808_after (take k h @ [h ! k])))"
      by (rule header_step)
    then show ?case
      using Suc assms(2) by (simp add: take_Suc_conv_app_nth jtt808_steps_append)
  qed
  from this [of hs] show ?thesis using assms(2) by simp
qed

lemma content_steps:
  assumes "transparent d hs n" and "so_data s \<noteq> 0"
  shows "length d = hs + 1 + k \<Longrightarrow> k + length cs < n \<Longrightarrow> k + length cs \<le> length (so_bytes s) \<Longrightarrow>
    jtt808_steps cs (with_content s ty (jtt808_after d)) =
    Inr (with_content (s\<lparr>so_bytes := take k (so_bytes s) @ cs @ drop (k + length cs) (so_bytes s)\<rparr>) ty
      (jtt808_after (d @ cs)))"
  using assms
proof (induction cs arbitrary: d k s)
  case Nil
  then show ?case by simp
next
  case (Cons c cs)
  let ?s = "s\<lparr>so_bytes := (so_bytes s)[k := c]\<rparr>"
  have "jtt808_step c (with_content s ty (jtt808_after d)) =
      Inr (with_content ?s ty (jtt808_after (d @ [c])))"
    by (rule after_content_step, subst body_step [OF Cons.prems(4)]) (use Cons.prems in simp_all)
  moreover have "jtt808_steps cs (with_content ?s ty (jtt808_after (d @ [c]))) =
      Inr (with_content (?s\<lparr>so_bytes := take (Suc k) (so_bytes ?s) @ cs @
        drop (Suc k + length cs) (so_bytes ?s)\<rparr>) ty (jtt808_after ((d @ [c]) @ cs)))"
    using Cons.prems by (intro Cons.IH) (auto intro: transparent_append)
  moreover have "take (Suc k) ((so_bytes s)[k := c]) = take k (so_bytes s) @ [c]"
    using Cons.prems by (simp add: take_Suc_conv_app_nth)
  ultimately show ?case using Cons.prems by simp
qed

lemma transparent_header:
  assumes "length bcd = (if v then 10 else 6)" and "n \<le> 0x3ff"
  shows "transparent (jtt808_header 0x0900 v bcd serial n) (if v then 17 else 12) n"
proof -
  let ?h = "jtt808_header 0x0900 v bcd serial n"
  note flags = properties_flags [OF assms(2) refl, of v]
  have p: "be16 (?h ! 0) (?h ! 1) = 0x0900"
    "be16 (?h ! 2) (?h ! 3) = of_nat n OR (if v then 0x4000 else 0)"
    by (simp_all only: jtt808_header_bytes [OF assms(1)] be16_parts)
  have "length ?h \<ge> 4" by (simp add: length_jtt808_header [OF assms(1)])
  moreover have "header_size_of (of_nat n OR (if v then 0x4000 else 0)) = (if v then 17 else 12)"
    using flags(1,2) by (simp only: header_size_of_def base_size_of_def) simp
  ultimately show ?thesis unfolding transparent_def p using flags(3) by simp
qed

text \<open>The whole pass over a transparent-data message.\<close>

lemma transparent_steps:
  assumes "transparent h hs (Suc (length cs))" and "length h = hs" and "12 \<le> hs"
    and "so_data s \<noteq> 0" and "length cs \<le> length (so_bytes s)"
  shows "jtt808_steps (h @ (ty # cs) @ [chk]) (jtt808_start (Some s)) =
    Inr (with_content (s\<lparr>so_bytes := overwrite cs (so_bytes s)\<rparr>) (ucast ty)
      (jtt808_after (h @ (ty # cs) @ [chk])))"
proof -
  let ?t = "\<lambda>s ty d. with_content s ty (jtt808_after d)"
  let ?s = "s\<lparr>so_bytes := overwrite cs (so_bytes s)\<rparr>"
  have h: "jtt808_steps h (jtt808_start (Some s)) = Inr (?t s PROTOCOL_SEMANTIC_TYPE_NONE h)"
    by (rule header_steps [OF assms(1-3)])
  have t: "jtt808_steps [ty] (?t s PROTOCOL_SEMANTIC_TYPE_NONE h) = Inr (?t s (ucast ty) (h @ [ty]))"
    using type_step [OF assms(1,2), of ty s PROTOCOL_SEMANTIC_TYPE_NONE] by simp
  have c: "jtt808_steps cs (?t s (ucast ty) (h @ [ty])) = Inr (?t ?s (ucast ty) ((h @ [ty]) @ cs))"
    using content_steps [OF transparent_append [OF assms(1)] assms(4), of "[ty]" 0 cs] assms(2,5)
    by (simp add: overwrite_def)
  have l: "jtt808_steps [chk] (?t ?s (ucast ty) ((h @ [ty]) @ cs)) =
      Inr (?t ?s (ucast ty) (((h @ [ty]) @ cs) @ [chk]))"
    using last_step [OF transparent_append [OF transparent_append [OF assms(1)]], of "[ty]" cs chk] assms(2)
    by simp
  have "h @ (ty # cs) @ [chk] = h @ [ty] @ cs @ [chk]" by simp
  then show ?thesis using h t c l by (simp only: jtt808_steps_append and_then.simps append_assoc)
qed

lemma with_content_sel [simp]:
  "jd_header (with_content s ty st) = jd_header st"
  "jd_header_known (with_content s ty st) = jd_header_known st"
  "jd_checksum (with_content s ty st) = jd_checksum st"
  "jd_body_size (with_content s ty st) = jd_body_size st"
  "jd_base_header_size (with_content s ty st) = jd_base_header_size st"
  "jd_header_size (with_content s ty st) = jd_header_size st"
  "jd_decoded_size (with_content s ty st) = jd_decoded_size st"
  "jd_message_id (with_content s ty st) = jd_message_id st"
  "jd_properties (with_content s ty st) = jd_properties st"
  "jd_semantic (with_content s ty st) = Some s"
  "jd_semantic_type (with_content s ty st) = ty"
  by (simp_all add: with_content_def)

lemma with_content_identity:
  "jd_properties st AND 0x2000 = 0 \<Longrightarrow> jtt808_identity (with_content s ty st) = jtt808_identity st"
  by (simp only: jtt808_identity_def Let_def with_content_sel simp_thms if_False)

lemma jtt808_semantic_frame:
  assumes bcd: "length bcd = (if v2019 then 10 else 6)" "bcd_digits bcd = Inr dev"
    and n: "length (ty # cs) \<le> 0x3ff"
    and f: "fv_data f \<noteq> 0"
      "fv_bytes f = jtt808_frame (jtt808_header 0x0900 v2019 bcd serial (length (ty # cs))) (ty # cs)"
    and s: "so_size s \<noteq> ShortSize" "so_abi_version s = PROTOCOL_ABI_VERSION" "so_data s \<noteq> 0"
      "length cs \<le> length (so_bytes s)"
  shows "flow_jtt808_decode_semantic v f m s =
    Inr (m\<lparr>pm_device_id := dev, pm_message_type := 0x0900, pm_sequence := ucast serial,
           pm_operation := ctext_of ''transparent-data''\<rparr>,
         s\<lparr>so_bytes := overwrite cs (so_bytes s), so_semantic_type := ucast ty,
           so_data_size := length cs,
           so_media_type := (if ucast ty = (1::u32) then ctext_of ''application/json'' else [])\<rparr>)"
proof -
  define h where "h = jtt808_header 0x0900 v2019 bcd serial (length (ty # cs))"
  define st where "st = jtt808_after (h @ (ty # cs) @ [xor_bytes (h @ ty # cs)])"
  let ?s = "s\<lparr>so_bytes := overwrite cs (so_bytes s)\<rparr>"
  note facts = jtt808_frame_state [OF bcd(1) n, where i = "0x0900" and serial = serial, folded h_def,
      folded st_def]
  have bytes: "fv_bytes f = jtt808_frame h (ty # cs)" using f(2) by (simp add: h_def)
  have hs: "length h = (if v2019 then 17 else 12)"
    unfolding h_def by (rule length_jtt808_header [OF bcd(1)])
  have tr: "transparent h (if v2019 then 17 else 12) (Suc (length cs))"
    using transparent_header [OF bcd(1) n, of serial] by (simp add: h_def)
  have le: "12 \<le> (if v2019 then 17 else 12 :: nat)" by simp
  have scan: "jtt808_scan (butlast (tl (fv_bytes f))) (jtt808_start (Some s)) =
      Inr (with_content ?s (ucast ty) st)"
    unfolding bytes jtt808_frame_ends(4) jtt808_scan_escape st_def
    by (rule transparent_steps [OF tr hs le s(3,4)])
  have id: "jtt808_identity (with_content ?s (ucast ty) st) = Inr (dev, ucast serial)"
    using jtt808_identity_frame [OF bcd(1) n bcd(2), of "0x0900" serial, folded h_def, folded st_def]
    by (simp only: with_content_identity [OF facts(6)])
  have ends: "\<not> (fv_data f = 0 \<or> length (fv_bytes f) < 2 \<or> fv_bytes f ! 0 \<noteq> 0x7e \<or>
      fv_bytes f ! (length (fv_bytes f) - 1) \<noteq> 0x7e)"
    using f(1) jtt808_frame_ends(1-3) [of h "ty # cs"] unfolding bytes by simp
  have size: "\<not> (\<not> jd_header_known st \<or> jd_checksum st \<noteq> 0 \<or>
      jd_body_size st > unat SIZE_MAX - jd_header_size st - 1 \<or>
      jd_decoded_size st \<noteq> jd_header_size st + jd_body_size st + 1)"
    using facts(1,2,4) n unfolding facts(8,9) unat_UINT64_MAX by simp
  have oper: "set_operation (jtt808_operation 0x0900) t k =
      Inr (k\<lparr>pm_operation := ctext_of ''transparent-data''\<rparr>)" for t k
    by (simp add: jtt808_operation_def set_operation_name name_ok_def ctext_of_def plain_def)
  show ?thesis
    unfolding flow_jtt808_decode_semantic_def flow_jtt808_decode_ingress_def Let_def scan
      if_not_P [OF ends] and_then.simps with_content_sel if_not_P [OF size] id prod.case facts(3) oper
    using s(1-3) facts(3,9) by (simp add: jtt808_publish_content_def)
qed

lemma jtt808_json_type: "ucast ty = (1 :: u32) \<longleftrightarrow> ty = 1" for ty :: u8
proof -
  have "unat ty < 256" using unsigned_less [of ty] by simp
  then show ?thesis by (simp add: word_unat_eq_iff unsigned_ucast_eq take_bit_nat_eq_self)
qed

section \<open>Segmented replies\<close>

lemma slice_whole:
  "mem_lib_law lib \<Longrightarrow> a \<noteq> [] \<Longrightarrow> slice_bytes (ml_slice lib a 0 (length a)) = a \<and>
     ms_length (ml_slice lib a 0 (length a)) = length a"
  by (simp add: mem_lib_law_def slice_bytes_def)

lemma slice_delimiters:
  assumes "mem_lib_law lib"
  shows "slice_bytes (ml_slice lib [d, d] 0 1) = [d]" "slice_bytes (ml_slice lib [d, d] 1 1) = [d]"
    "ms_length (ml_slice lib [d, d] 0 1) = 1" "ms_length (ml_slice lib [d, d] 1 1) = 1"
  using assms by (simp_all add: mem_lib_law_def slice_bytes_def)

lemma slice_valid_whole:
  "mem_lib_law lib \<Longrightarrow> a \<noteq> [] \<Longrightarrow> flow_protocol_reply_slice_valid (ml_slice lib a 0 (length a))"
  by (simp add: mem_lib_law_def flow_protocol_reply_slice_valid_def)

lemma slice_valid_delimiters:
  assumes "mem_lib_law lib"
  shows "flow_protocol_reply_slice_valid (ml_slice lib [d, d] 0 1)"
    "flow_protocol_reply_slice_valid (ml_slice lib [d, d] 1 1)"
  using assms by (simp_all add: mem_lib_law_def flow_protocol_reply_slice_valid_def)

lemma jtt808_escape_empty: "jtt808_escape bs = [] \<longleftrightarrow> bs = []"
  by (cases bs) (simp_all add: escape_byte_def)

lemma frame_slices_write_Inr:
  assumes "flow_jtt808_frame_slices_write lib i device v serial body bytes x = Inr y"
    and "mem_lib_law lib"
  shows "\<exists>h ss. flow_jtt808_frame_header i device v serial (length bytes) 17 = Inr h \<and>
    y = slices_put ss x \<and> concat (map slice_bytes ss) = jtt808_frame h bytes \<and>
    sum_list (map ms_length ss) = length (jtt808_frame h bytes) \<and>
    (\<forall>s \<in> set ss. flow_protocol_reply_slice_valid s)"
proof -
  obtain h where h: "flow_jtt808_frame_header i device v serial (length bytes) 17 = Inr h"
    using assms(1) by (auto simp: flow_jtt808_frame_slices_write_def guards)
  then have ne: "h \<noteq> []"
    using frame_header_Inr(3) [OF h] by (auto simp: jtt808_header_def Let_def)
  let ?c = "xor_bytes (h @ bytes)"
  let ?a = "jtt808_escape h" and ?b = "jtt808_escape bytes" and ?k = "jtt808_escape [?c]"
  let ?ss = "[ml_slice lib [0x7e, 0x7e] 0 1, ml_slice lib ?a 0 (length ?a)] @
     (if bytes \<noteq> [] then [ml_slice lib ?b 0 (length ?b)] else []) @
     [ml_slice lib ?k 0 (length ?k), ml_slice lib [0x7e, 0x7e] 1 1]"
  have y: "y = slices_put ?ss x"
    using assms(1) unfolding flow_jtt808_frame_slices_write_def h Let_def
    by (simp only: and_then.simps guards escape_write_eq length_jtt808_escape order_refl if_True
        Inr_inject) (auto simp: length_jtt808_escape split: if_splits)
  have full: "?k \<noteq> []" "?a \<noteq> []" "bytes \<noteq> [] \<Longrightarrow> ?b \<noteq> []"
    using ne by (simp_all add: jtt808_escape_empty escape_byte_def)
  then have "concat (map slice_bytes ?ss) = jtt808_frame h bytes"
    "sum_list (map ms_length ?ss) = length (jtt808_frame h bytes)"
    using slice_whole [OF assms(2)] slice_delimiters [OF assms(2)]
    by (simp_all add: jtt808_frame_def)
  moreover have "\<forall>s \<in> set ?ss. flow_protocol_reply_slice_valid s"
    using full slice_valid_whole [OF assms(2)] slice_valid_delimiters [OF assms(2)] by auto
  ultimately show ?thesis using h y by blast
qed

lemma frame_slices_write_succeeds:
  assumes "mem_lib_law lib" and "\<And>n k. ml_get lib n k"
    and h: "flow_jtt808_frame_header i device v serial (length bytes) 17 = Inr h"
    and "body \<noteq> 0" and "sl_segments x = Some slots" and "5 \<le> length slots"
  shows "\<exists>y. flow_jtt808_frame_slices_write lib i device v serial body bytes x = Inr y"
proof -
  have n: "length bytes \<le> 0x3ff" by (rule frame_header_Inr(2) [OF h])
  obtain bcd where bcd: "length bcd = (if v then 10 else 6)"
    "h = jtt808_header i v bcd serial (length bytes)"
    using frame_header_Inr(3) [OF h] by blast
  then have lh: "length h \<le> 17" "h \<noteq> []" by (auto simp: length_jtt808_header jtt808_header_def Let_def)
  let ?c = "xor_bytes (h @ bytes)"
  define e1 e2 e3 where e: "e1 = flow_jtt808_escaped_size h" "e2 = flow_jtt808_escaped_size bytes"
    "e3 = flow_jtt808_escaped_size [?c]"
  have b: "0 < e1" "e1 \<le> 34" "e2 \<le> 2046" "bytes \<noteq> [] \<Longrightarrow> 0 < e2" "0 < e3" "e3 \<le> 2"
    using escaped_size_bounds [of h] escaped_size_bounds [of bytes] escaped_size_bounds [of "[?c]"] lh n
    unfolding e by (cases h; cases bytes; auto)+
  have big: "(4000::nat) < unat SIZE_MAX" by (simp add: unat_UINT64_MAX)
  have range: "\<not> (e1 = unat SIZE_MAX \<or> e2 = unat SIZE_MAX \<or> e3 = unat SIZE_MAX)"
    using b big by linarith
  have ok: "\<not> (body = 0 \<and> length bytes \<noteq> 0 \<or> sl_segments x = None)"
    "\<not> length (the (sl_segments x)) < (if bytes \<noteq> [] then 5 else 4)"
    using assms(4-6) by auto
  have l3: "length (escape_byte ?c) = e3" by (simp add: e length_escape_byte)
  have slice: "0 < k \<Longrightarrow> at + k \<le> length used \<Longrightarrow>
      ml_slice lib used at k = \<lparr>ms_buffer = Some used, ms_offset = Some (int at), ms_length = k\<rparr>" for k at used
    using assms(1) by (simp add: mem_lib_law_def)
  show ?thesis
    unfolding flow_jtt808_frame_slices_write_def if_not_P [OF ok(1)] h and_then.simps Let_def
      escape_write_eq e [symmetric] if_not_P [OF range] if_not_P [OF ok(2)]
    using b big l3
    by (cases "bytes = []"; simp add: assms(2) length_jtt808_escape e [symmetric] slice; linarith)
qed

end
