(* ===== verification/Flow_JTT808_Spec.thy ===== *)
theory Flow_JTT808_Spec
  imports Flow_JTT808_Proofs
begin

text \<open>
  The properties of the JT/T 808 codec and of the service its plugin opens: one wire parser for
  the two decoders, content delivered intact, agreement of the two reply paths, self-delimiting
  frames, and that valid commands are encoded and accepted requests acknowledged.
\<close>

unbundle bit_operations_syntax

section \<open>The codec\<close>

text \<open>C22: One wire parser.  Whatever a semantic decode accepts, \<open>inspect\<close> accepts, with the same
  metadata.\<close>

theorem jtt808_semantic_inspects:
  assumes "flow_jtt808_decode_semantic v f m s = Inr (m', s')"
  shows "flow_jtt808_inspect v f m = Inr m'"
proof -
  obtain c where "flow_jtt808_decode_ingress f m (Some s) = Inr (m', c)"
    using assms by (auto simp: flow_jtt808_decode_semantic_def guards)
  note dec = this [unfolded flow_jtt808_decode_ingress_def Let_def]
  obtain st where st: "jtt808_scan (butlast (tl (fv_bytes f))) (jtt808_start (Some s)) = Inr st"
    using dec by (auto simp: guards)
  have scan: "jtt808_scan (butlast (tl (fv_bytes f))) (jtt808_start None) = Inr (jtt808_forget st)"
    using forget_scan [OF st] by (simp add: forget_start)
  obtain dev serial where id: "jtt808_identity st = Inr (dev, serial)"
    using dec by (auto simp: guards st)
  have pub: "jtt808_publish_content (jtt808_forget st) = Inr None"
    by (simp add: jtt808_publish_content_def jtt808_forget_def)
  have "flow_jtt808_decode_ingress f m None = Inr (m', None)"
    using dec unfolding flow_jtt808_decode_ingress_def Let_def scan st
    by (simp only: and_then.simps guards forget_identity [OF id] forget_sel pub option.case simp_thms)
      (auto simp: id guards)
  then show ?thesis by (simp add: flow_jtt808_inspect_def)
qed

text \<open>A written transparent-data message, decoded.\<close>

lemma jtt808_written_content:
  assumes "flow_jtt808_frame_write 0x0900 (Some dev) v2019 serial body (ty # cs) x = Inr y"
    and "fv_data f \<noteq> 0" and "fv_bytes f = take (fo_data_size y) (fo_bytes y)"
    and "so_size s \<noteq> ShortSize" and "so_abi_version s = PROTOCOL_ABI_VERSION"
    and "so_data s \<noteq> 0" and "length cs \<le> length (so_bytes s)"
  shows "flow_jtt808_decode_semantic v f m s =
    Inr (m\<lparr>pm_device_id := dev, pm_message_type := 0x0900, pm_sequence := ucast serial,
           pm_operation := ctext_of ''transparent-data''\<rparr>,
         s\<lparr>so_bytes := overwrite cs (so_bytes s), so_semantic_type := ucast ty,
           so_data_size := length cs,
           so_media_type := (if ty = 1 then ctext_of ''application/json'' else [])\<rparr>)"
proof -
  obtain h where h: "flow_jtt808_frame_header 0x0900 (Some dev) v2019 serial (length (ty # cs)) 17 = Inr h"
    and y: "y = frame_put (jtt808_frame h (ty # cs)) x"
    using frame_write_Inr [OF assms(1)] by blast
  obtain bcd where bcd: "bcd_write dev = Inr bcd" "length bcd = (if v2019 then 10 else 6)"
    and hh: "h = jtt808_header 0x0900 v2019 bcd serial (length (ty # cs))"
    using frame_header_Inr(3) [OF h] by blast
  have bytes: "fv_bytes f = jtt808_frame (jtt808_header 0x0900 v2019 bcd serial (length (ty # cs))) (ty # cs)"
    using assms(3) y hh by simp
  show ?thesis
    using jtt808_semantic_frame [OF bcd(2) conjunct1 [OF bcd_write_digits [OF bcd(1)]]
        frame_header_Inr(2) [OF h] assms(2) bytes assms(4-7)]
    by (simp add: jtt808_json_type)
qed

text \<open>C14: The two reply paths agree.  For the same request, status and counter, the segments of
  \<open>reply_slices\<close> concatenate to the frame \<open>reply\<close> writes, the sizes and the counter agree, and the
  metadata \<open>reply_slices\<close> fills in by hand is what \<open>inspect\<close> reads from that frame.\<close>

theorem jtt808_reply_slices_agree:
  assumes "mem_lib_law lib" and "sl_metadata sx = METADATA_INIT"
    and "flow_jtt808_reply ctx v f st x = (c1, Inr y)"
    and "flow_jtt808_reply_slices lib ctx v f st sx = (c2, Inr z)"
    and "fv_data g \<noteq> 0" and "fv_bytes g = take (fo_data_size y) (fo_bytes y)"
  shows "concat (map slice_bytes (take (sl_segment_count z) (the (sl_segments z)))) =
      take (fo_data_size y) (fo_bytes y) \<and> sl_data_size z = fo_data_size y \<and> c1 = c2 \<and>
    flow_jtt808_inspect v g METADATA_INIT = Inr (sl_metadata z)"
proof -
  obtain dev ver body serial where
    prep: "flow_jtt808_reply_prepare ctx f st = (c1, Inr (dev, ver, body, serial))"
    and w: "flow_jtt808_frame_write 0x8001 (Some dev) ver serial 1 body x = Inr y"
    using assms(3) by (auto simp: flow_jtt808_reply_def split: prod.splits sum.splits)
  obtain z' where w': "flow_jtt808_frame_slices_write lib 0x8001 (Some dev) ver serial 1 body sx = Inr z'"
    and c2: "c2 = c1"
    and z: "z = z'\<lparr>sl_metadata := (sl_metadata z')\<lparr>pm_message_type := 0x8001,
        pm_sequence := ucast serial, pm_device_id := dev, pm_operation := ctext_of ''platform-ack''\<rparr>\<rparr>"
    using assms(4) prep by (auto simp: flow_jtt808_reply_slices_def guards)
  obtain h ss where h: "flow_jtt808_frame_header 0x8001 (Some dev) ver serial (length body) 17 = Inr h"
    and z': "z' = slices_put ss sx" "concat (map slice_bytes ss) = jtt808_frame h body"
    "sum_list (map ms_length ss) = length (jtt808_frame h body)"
    using frame_slices_write_Inr [OF w' assms(1)] by blast
  have y: "y = frame_put (jtt808_frame h body) x"
    using frame_write_Inr [OF w] h by auto
  have oper: "jtt808_operation 0x8001 = Some ''platform-ack''" by (simp add: jtt808_operation_def)
  have "flow_jtt808_inspect v g METADATA_INIT = Inr (METADATA_INIT\<lparr>pm_device_id := dev,
      pm_message_type := 0x8001, pm_sequence := ucast serial, pm_operation := ctext_of ''platform-ack''\<rparr>)"
    using jtt808_written_frame [OF w oper jtt808_operation_ok [OF oper], of v] assms(5,6) by auto
  then show ?thesis
    using z z' y c2 assms(2) by (simp add: slices_put_def) (simp add: frame_put_def)
qed

text \<open>C23: Frames are self-delimiting.  In a frame the codec writes the delimiter \<open>0x7e\<close> is the first
  and the last byte and occurs nowhere else.\<close>

theorem jtt808_delimited:
  assumes "flow_jtt808_frame_write i device v2019 serial body bytes x = Inr y"
  shows "\<exists>inner. take (fo_data_size y) (fo_bytes y) = [0x7e] @ inner @ [0x7e] \<and> 0x7e \<notin> set inner"
proof -
  obtain h where "y = frame_put (jtt808_frame h bytes) x"
    using frame_write_Inr [OF assms] by blast
  then show ?thesis
    using delimiter_not_in_escape [of "h @ bytes @ [xor_bytes (h @ bytes)]"]
    by (auto simp: jtt808_frame_def)
qed

section \<open>The JT/T 808 service\<close>

lemma jtt808_descriptor [simp]:
  "pd_inspect (FLOW_JTT808_DESCRIPTOR lib) = Some flow_jtt808_inspect"
  "pd_reply (FLOW_JTT808_DESCRIPTOR lib) = Some flow_jtt808_reply"
  "pd_encode (FLOW_JTT808_DESCRIPTOR lib) = Some flow_jtt808_encode"
  by (simp_all add: FLOW_JTT808_DESCRIPTOR_def)

lemma bcd_write_digits_ok:
  "even (length ds) \<Longrightarrow> \<forall>c \<in> set ds. 0x30 \<le> c \<and> c \<le> 0x39 \<Longrightarrow> \<exists>bs. bcd_write ds = Inr bs"
  by (induction ds rule: bcd_write.induct) (auto simp: not_less)

lemma frame_write_succeeds:
  assumes "length dev = (if v2019 then 20 else 12)" and "\<forall>c \<in> set dev. 0x30 \<le> c \<and> c \<le> 0x39"
    and "serial \<noteq> 0" and "length bytes \<le> 0x3ff" and "body \<noteq> 0 \<or> bytes = []" and "fo_data x \<noteq> 0"
    and "2 * length bytes + 38 \<le> length (fo_bytes x)"
  shows "\<exists>y. flow_jtt808_frame_write i (Some dev) v2019 serial body bytes x = Inr y \<and>
    fo_data_size y \<le> 2 * length bytes + 38"
proof -
  obtain bcd where bcd: "bcd_write dev = Inr bcd"
    using bcd_write_digits_ok [OF _ assms(2)] assms(1) by (auto split: if_splits)
  let ?h = "jtt808_header i v2019 bcd serial (length bytes)"
  have h: "flow_jtt808_frame_header i (Some dev) v2019 serial (length bytes) 17 = Inr ?h"
    using assms(1,3,4) bcd by (simp add: flow_jtt808_frame_header_def Let_def jtt808_header_def)
  have "length bcd = (if v2019 then 10 else 6)"
    using bcd_write_digits [OF bcd] assms(1) by (simp split: if_splits)
  then have lh: "length ?h \<le> 17" by (simp add: length_jtt808_header)
  let ?c = "xor_bytes (?h @ bytes)" and ?cap = "length (fo_bytes x)"
  define e1 e2 e3 where e: "e1 = flow_jtt808_escaped_size ?h" "e2 = flow_jtt808_escaped_size bytes"
    "e3 = flow_jtt808_escaped_size [?c]"
  have n: "e1 + e2 + e3 + 2 \<le> 2 * length bytes + 38"
    using escaped_size_bounds [of ?h] escaped_size_bounds [of bytes] escaped_size_bounds [of "[?c]"] lh
    unfolding e by simp
  have big: "(4000::nat) < unat SIZE_MAX" by (simp add: unat_UINT64_MAX)
  have range: "\<not> (e1 = unat SIZE_MAX \<or> e2 = unat SIZE_MAX \<or> e3 = unat SIZE_MAX \<or>
      e1 > unat SIZE_MAX - e2 \<or> e1 + e2 > unat SIZE_MAX - e3 \<or> e1 + e2 + e3 > unat SIZE_MAX - 2)"
    using n big assms(4) by linarith
  have fits: "\<not> e1 + e2 + e3 + 2 > ?cap" "e1 \<le> ?cap - 1" "e2 \<le> ?cap - (1 + e1)"
    "e3 \<le> ?cap - (1 + e1 + e2)" "e3 \<le> ?cap - (1 + e1 + 0)"
    using n assms(7) by linarith+
  have ok: "\<not> (body = 0 \<and> length bytes \<noteq> 0 \<or> fo_data x = 0)" using assms(5,6) by auto
  have "flow_jtt808_frame_write i (Some dev) v2019 serial body bytes x =
      Inr (frame_put (jtt808_frame ?h bytes) x)"
    unfolding flow_jtt808_frame_write_def if_not_P [OF ok] h and_then.simps Let_def escape_write_eq
      e [symmetric] if_not_P [OF range] if_not_P [OF fits(1)] if_P [OF fits(2)] length_jtt808_escape
    using fits(3-5) by (cases "bytes = []")
      (simp_all add: e(2) length_jtt808_escape jtt808_frame_def)
  moreover have "length (jtt808_frame ?h bytes) = e1 + e2 + e3 + 2"
    by (simp add: e jtt808_frame_def length_escape_byte length_jtt808_escape)
  ultimately show ?thesis using n by (auto simp: frame_put_def)
qed

text \<open>C10: Commands to a terminal are always delivered.  An instance of the JT/T 808 service encodes
  every valid command whose operation the protocol has, for a device of twenty digits, a serial of
  1 to 65535 and a body of at most 1023 bytes, given twice the body and 38 bytes of room: nothing
  the codec writes is refused by the host, and the published metadata carries the command's
  device, operation and serial.\<close>

theorem jtt808_encode_delivers:
  assumes "opened (FLOW_JTT808_DESCRIPTOR lib) p"
    and "flow_protocol_command_validate (Some p) (Some c) = SALTS_OK"
    and "flow_protocol_frame_output_validate (Some x) = (SALTS_OK, Some x1)"
    and "cv_device_id c = Some dev" and "length dev = 20" and "\<forall>b \<in> set dev. 0x30 \<le> b \<and> b \<le> 0x39"
    and "cv_operation c = Some oper" and "flow_jtt808_message_id (Some oper) = Inr i"
    and "0 < cv_sequence c" and "cv_sequence c \<le> 0xffff" and "length (cv_bytes c) \<le> 0x3ff"
    and "2 * length (cv_bytes c) + 38 \<le> length (fo_bytes x)"
    and "2 * length (cv_bytes c) + 38 \<le> ps_max_frame_size p"
  shows "\<exists>y. turbo_flow_protocol_encode (Some p) (Some c) (Some x) = (SALTS_OK, Some y) \<and>
    pm_device_id (fo_metadata y) = dev \<and> pm_operation (fo_metadata y) = oper \<and>
    pm_sequence (fo_metadata y) = cv_sequence c \<and> pm_message_type (fo_metadata y) = ucast i"
proof -
  let ?v = "ps_protocol_version p"
  have op: "protocol_wf p" "ps_capabilities p AND CAP_COMMAND_ENCODE \<noteq> 0"
    "co_inspect (ps_ops p) = Some flow_jtt808_inspect" "co_encode (ps_ops p) = Some flow_jtt808_encode"
    using assms(1) by (simp_all add: opened_def plugin_ops_def)
  have x1: "fo_data x1 \<noteq> 0" "fo_bytes x1 = fo_bytes x"
    using assms(3) by (auto simp: frame_output_validate_OK)
  have serial: "(ucast (cv_sequence c) :: u16) \<noteq> 0"
    using ucast_narrow [of "cv_sequence c"] assms(9,10) by (metis less_irrefl linorder_not_le ucast_0)
  have cv: "cv_payload c \<noteq> 0 \<or> cv_bytes c = []" "segment_ok dev PROTOCOL_DEVICE_ID_MAX"
    using command_validate_OK [OF assms(2)] assms(4) by auto
  obtain y where y: "flow_jtt808_frame_write i (Some dev) True (ucast (cv_sequence c)) (cv_payload c)
      (cv_bytes c) x1 = Inr y" "fo_data_size y \<le> 2 * length (cv_bytes c) + 38"
    using frame_write_succeeds [of dev True "ucast (cv_sequence c)" "cv_bytes c" "cv_payload c" x1 i]
      assms(5,6,11,12) x1 serial cv(1) by auto
  have enc: "flow_jtt808_encode ?v c x1 = Inr y"
    using y(1) assms(4,7-10) by (auto simp: flow_jtt808_encode_def not_less)
  obtain m' where m': "flow_jtt808_inspect ?v (generated_view p (Some dev) y) METADATA_INIT = Inr m'"
    and host: "turbo_flow_protocol_encode (Some p) (Some c) (Some x) =
      (SALTS_OK, Some (y\<lparr>fo_metadata := host_filled p DIRECTION_DOWN dev m'\<rparr>))"
    using jtt808.host_encode [OF op(1,3,4,2) assms(2,4,7) cv(2) assms(3)] y(2) assms(13) enc by auto
  have "m' = METADATA_INIT\<lparr>pm_device_id := dev, pm_message_type := ucast i,
      pm_sequence := cv_sequence c, pm_operation := oper\<rparr>"
    using jtt808_encode_accepted [OF enc assms(4,7)] m' x1(1) assms(8)
    by (auto simp: generated_view_def frame_put_def overwrite_def)
  then show ?thesis using host by (simp add: host_filled_def)
qed

lemma bcd_digits_range: "bcd_digits bs = Inr ds \<Longrightarrow> c \<in> set ds \<Longrightarrow> 0x30 \<le> c \<and> c \<le> 0x39"
  using digit_range by (induction bs arbitrary: ds) (auto simp: guards not_less)

lemma jtt808_phone_length:
  "jtt808_accepted f d \<Longrightarrow> bcd_digits (jtt808_phone d) = Inr dev \<Longrightarrow>
     length dev = (if jtt808_version_2019 d then 20 else 12)"
  using jtt808_accepted_length [of f d] length_bcd_digits [of "jtt808_phone d" dev]
  by (simp add: jtt808_phone_def split: if_splits)

text \<open>The codec's reply to an accepted request.\<close>

lemma jtt808_prepared:
  assumes acc: "jtt808_accepted f d" and dev: "bcd_digits (jtt808_phone d) = Inr dev"
    and "flow_jtt808_next_serial (Some n) = (c, serial)"
  shows "flow_jtt808_reply_prepare (Some n) f st =
    (c, Inr (dev, jtt808_version_2019 d, jtt808_ack_body d st, serial))"
  using jtt808_reply_prepare_eq [OF acc dev, of n st] jtt808_next_serial(1) [OF assms(3)] assms(3)
  by (auto simp: flow_jtt808_next_serial_def Let_def)

lemma jtt808_reply_succeeds:
  assumes acc: "jtt808_accepted f d" and dev: "bcd_digits (jtt808_phone d) = Inr dev"
    and "flow_jtt808_next_serial (Some n) = (c, serial)"
    and "fo_data x \<noteq> 0" and "48 \<le> length (fo_bytes x)"
  shows "\<exists>y h. flow_jtt808_reply (Some n) v f st x = (c, Inr y) \<and> fo_data_size y \<le> 48 \<and>
    fo_data_size y \<noteq> 0 \<and>
    take (fo_data_size y) (fo_bytes y) = jtt808_frame h (jtt808_ack_body d st)"
proof -
  note serial = jtt808_next_serial [OF assms(3)]
  note prep = jtt808_prepared [OF acc dev assms(3), of st]
  obtain y where y: "flow_jtt808_frame_write 0x8001 (Some dev) (jtt808_version_2019 d) serial 1
      (jtt808_ack_body d st) x = Inr y" "fo_data_size y \<le> 48"
    using frame_write_succeeds [OF jtt808_phone_length [OF acc dev] _ serial(1),
        of "jtt808_ack_body d st" 1 x "0x8001"] bcd_digits_range [OF dev] assms(4,5)
    by (auto simp: jtt808_ack_body_def)
  obtain h where h: "y = frame_put (jtt808_frame h (jtt808_ack_body d st)) x"
    using frame_write_Inr [OF y(1)] by blast
  then have "fo_data_size y \<noteq> 0" by (simp add: frame_put_def jtt808_frame_def)
  then show ?thesis using prep y h by (auto simp: flow_jtt808_reply_def)
qed

lemma ucast_down: "ucast (ucast (w :: u16) :: u64) = w" "ucast (ucast (w :: u16) :: u32) = w"
  by (rule bit_word_eqI; auto simp: bit_simps dest: bit_imp_le_length)+

text \<open>What the host read from an accepted request, in terms of its decoded bytes.\<close>

lemma jtt808_request_read:
  assumes "opened (FLOW_JTT808_DESCRIPTOR lib) p"
    and "flow_protocol_inspect (Some p) (Some f) DIRECTION_UP = Inr rm"
  shows "\<exists>i d. flow_jtt808_inspect (ps_protocol_version p) f METADATA_INIT = Inr i \<and> jtt808_accepted f d \<and>
    bcd_digits (jtt808_phone d) = Inr (pm_device_id rm) \<and> segment_ok (pm_device_id rm) PROTOCOL_DEVICE_ID_MAX \<and>
    (text_given (fv_device_id f) \<longrightarrow> fv_device_id f = Some (pm_device_id rm)) \<and>
    (\<forall>st. jtt808_ack_body d st = [hi8 (ucast (pm_sequence rm)), lo8 (ucast (pm_sequence rm)),
      hi8 (ucast (pm_message_type rm)), lo8 (ucast (pm_message_type rm)), jtt808_result st])"
proof -
  have op: "protocol_wf p" "co_inspect (ps_ops p) = Some flow_jtt808_inspect"
    using assms(1) by (simp_all add: opened_def plugin_ops_def)
  obtain i where i: "flow_jtt808_inspect (ps_protocol_version p) f METADATA_INIT = Inr i"
    and fin: "flow_protocol_metadata_finalize p f DIRECTION_UP i = Inr rm"
    using assms(2) op(2) by (auto simp: inspect_Inr)
  obtain d dev where d: "jtt808_accepted f d" "bcd_digits (jtt808_phone d) = Inr dev" "dev \<noteq> []"
    and im: "pm_device_id i = dev" "pm_message_type i = ucast (be16 (d ! 0) (d ! 1))"
      "pm_sequence i = ucast (be16 (d ! jtt808_serial_at d) (d ! (jtt808_serial_at d + 1)))"
    using jtt808_inspect_accepted [OF i] segment_ok_nonempty by fastforce
  have rm: "pm_sequence rm = pm_sequence i" "pm_message_type rm = pm_message_type i"
    "pm_device_id rm = dev" "segment_ok dev PROTOCOL_DEVICE_ID_MAX"
    "text_given (fv_device_id f) \<longrightarrow> fv_device_id f = Some dev"
    using finalize_Inr [OF fin op(1)] d(3) im(1) by (auto simp: host_filled_def)
  moreover have "jtt808_ack_body d st = [hi8 (ucast (pm_sequence rm)), lo8 (ucast (pm_sequence rm)),
      hi8 (ucast (pm_message_type rm)), lo8 (ucast (pm_message_type rm)), jtt808_result st]" for st
    by (simp add: jtt808_ack_body_def rm im ucast_down)
  ultimately show ?thesis using i d by blast
qed

text \<open>C11: Settled requests are always acknowledged.  To a request it accepts, an instance of the
  JT/T 808 service replies, given 48 bytes of room, with a platform acknowledgement for the same
  device; its body repeats the serial and the identifier of the request, followed by the result
  code of the settlement, and its own serial is the next of the instance.\<close>

theorem jtt808_reply_delivers:
  assumes "opened (FLOW_JTT808_DESCRIPTOR lib) p" and "ps_codec_ctx p = Some n"
    and "flow_protocol_inspect (Some p) (Some f) DIRECTION_UP = Inr rm"
    and "flow_protocol_frame_output_validate (Some x) = (SALTS_OK, Some x1)"
    and "48 \<le> length (fo_bytes x)" and "48 \<le> ps_max_frame_size p"
  shows "\<exists>y h serial. flow_jtt808_next_serial (Some n) = (Some (ucast serial), serial) \<and>
    turbo_flow_protocol_reply (Some p) (Some f) st (Some x) =
      (Some (p\<lparr>ps_codec_ctx := Some (ucast serial)\<rparr>), SALTS_OK, Some y) \<and>
    pm_device_id (fo_metadata y) = pm_device_id rm \<and>
    pm_operation (fo_metadata y) = ctext_of ''platform-ack'' \<and> pm_sequence (fo_metadata y) = ucast serial \<and>
    take (fo_data_size y) (fo_bytes y) = jtt808_frame h
      [hi8 (ucast (pm_sequence rm)), lo8 (ucast (pm_sequence rm)),
       hi8 (ucast (pm_message_type rm)), lo8 (ucast (pm_message_type rm)), jtt808_result st]"
proof -
  let ?v = "ps_protocol_version p" and ?dev = "pm_device_id rm"
  have op: "protocol_wf p" "ps_capabilities p AND CAP_PROTOCOL_REPLY \<noteq> 0"
    "co_inspect (ps_ops p) = Some flow_jtt808_inspect" "co_reply (ps_ops p) = Some flow_jtt808_reply"
    using assms(1) by (simp_all add: opened_def plugin_ops_def)
  obtain i d where i: "flow_jtt808_inspect ?v f METADATA_INIT = Inr i"
    and d: "jtt808_accepted f d" "bcd_digits (jtt808_phone d) = Inr ?dev"
    and ack: "\<forall>st. jtt808_ack_body d st = [hi8 (ucast (pm_sequence rm)), lo8 (ucast (pm_sequence rm)),
      hi8 (ucast (pm_message_type rm)), lo8 (ucast (pm_message_type rm)), jtt808_result st]"
    using jtt808_request_read [OF assms(1,3)] by blast
  obtain c serial where n: "flow_jtt808_next_serial (Some n) = (c, serial)" by fastforce
  have x1: "fo_data x1 \<noteq> 0" "48 \<le> length (fo_bytes x1)"
    using assms(4,5) by (auto simp: frame_output_validate_OK)
  obtain y h where y: "flow_jtt808_reply (Some n) ?v f st x1 = (c, Inr y)" "fo_data_size y \<le> 48"
    "fo_data_size y \<noteq> 0" "take (fo_data_size y) (fo_bytes y) = jtt808_frame h (jtt808_ack_body d st)"
    using jtt808_reply_succeeds [OF d(1,2) n x1] by blast
  obtain m' where m': "flow_jtt808_inspect ?v (generated_view p (Some ?dev) y) METADATA_INIT = Inr m'"
    and host: "turbo_flow_protocol_reply (Some p) (Some f) st (Some x) = (Some (p\<lparr>ps_codec_ctx := c\<rparr>),
      SALTS_OK, Some (y\<lparr>fo_metadata := host_filled p DIRECTION_DOWN ?dev m'\<rparr>))"
    using jtt808.host_reply [OF op(1,3,4,2) assms(3,4), of st c "Inr y"] y(1-3) assms(2,6) by auto
  have c: "c = Some (ucast serial)" by (rule jtt808_next_serial(2) [OF n])
  have "pm_operation m' = ctext_of ''platform-ack'' \<and> pm_sequence m' = ucast serial"
    using jtt808_reply_accepted [OF i y(1)] m' x1(1) c
    by (auto simp: generated_view_def frame_put_def overwrite_def ucast_widen)
  then have "pm_device_id (host_filled p DIRECTION_DOWN ?dev m') = ?dev \<and>
      pm_operation (host_filled p DIRECTION_DOWN ?dev m') = ctext_of ''platform-ack'' \<and>
      pm_sequence (host_filled p DIRECTION_DOWN ?dev m') = ucast serial"
    by (simp add: host_filled_def)
  then show ?thesis
    using host n c y(4) ack
    by (intro exI [of _ "y\<lparr>fo_metadata := host_filled p DIRECTION_DOWN ?dev m'\<rparr>"] exI [of _ h]
        exI [of _ serial] conjI) auto
qed

lemma reports_bcd_digits: "reports (bcd_digits bs)"
  by (induction bs) (auto intro!: reports_and_then)

lemma reports_bcd_write: "reports (bcd_write ds)"
  by (induction ds rule: bcd_write.induct) (auto intro!: reports_and_then)

lemma reports_step: "reports (jtt808_step v st)"
  unfolding jtt808_step_def jtt808_read_header_def jtt808_content_def
  by (auto simp: Let_def intro!: reports_and_then split: option.splits)

lemma reports_scan: "reports (jtt808_scan bs st)"
proof (induction bs arbitrary: st rule: jtt808_unescape.induct)
  case (2 b bs)
  then show ?case by (cases bs) (auto simp: reports_step intro!: reports_and_then)
qed simp

lemma reports_identity: "reports (jtt808_identity st)"
  unfolding jtt808_identity_def flow_jtt808_device_id_def Let_def
  by (intro reports_if reports_and_then reports_bcd_digits) simp_all

lemma reports_decode_ingress: "reports (flow_jtt808_decode_ingress f m s)"
proof -
  have pub: "reports (jtt808_publish_content st)" for st
    by (simp add: jtt808_publish_content_def split: option.split)
  show ?thesis
    unfolding flow_jtt808_decode_ingress_def Let_def case_prod_beta
    by (intro reports_if reports_and_then reports_scan reports_identity reports_set_operation pub) simp_all
qed

lemma reports_frame_header: "reports (flow_jtt808_frame_header i d v s n cap)"
  unfolding flow_jtt808_frame_header_def Let_def
  by (intro reports_if reports_and_then reports_bcd_write) simp_all

lemma reports_escape_write: "reports (flow_jtt808_escape_write bs n)"
  by (simp add: escape_write_eq)

lemma reports_frame_write: "reports (flow_jtt808_frame_write i d v s a bs x)"
  unfolding flow_jtt808_frame_write_def Let_def
  by (intro reports_if reports_and_then reports_frame_header reports_escape_write) simp_all

lemma reports_slices_sum: "reports (slices_sum n ss)"
  by (induction ss arbitrary: n) auto

lemma reports_frame_slices_write: "reports (flow_jtt808_frame_slices_write lib i d v s a bs x)"
  unfolding flow_jtt808_frame_slices_write_def Let_def
  by (intro reports_if reports_and_then reports_frame_header reports_escape_write reports_slices_sum)
    simp_all

lemma reports_reply_prepare: "reports (snd (flow_jtt808_reply_prepare ctx f st))"
  unfolding flow_jtt808_reply_prepare_def flow_jtt808_device_id_def
  using reports_bcd_digits
  by (auto simp: Let_def reports_def split: option.splits sum.splits prod.splits)

lemma jtt808_codec_reports: "codec_reports (plugin_ops (FLOW_JTT808_DESCRIPTOR lib))"
proof -
  have "reports (flow_jtt808_inspect v f m)" for v f m
    unfolding flow_jtt808_inspect_def case_prod_beta
    by (intro reports_and_then reports_decode_ingress) simp
  moreover have "reports (flow_jtt808_decode_semantic v f m s)" for v f m s
    unfolding flow_jtt808_decode_semantic_def case_prod_beta
    by (intro reports_and_then reports_decode_ingress) simp
  moreover have "reports (flow_jtt808_encode v c x)" for v c x
  proof -
    have "reports (flow_jtt808_message_id oper)" for oper
      unfolding flow_jtt808_message_id_def by (intro reports_if) simp_all
    then show ?thesis
      unfolding flow_jtt808_encode_def
      by (intro reports_if reports_and_then reports_frame_write) simp_all
  qed
  moreover have "reports (snd (flow_jtt808_reply ctx v f st x))" for ctx v f st x
    using reports_reply_prepare [of ctx f st] reports_frame_write
    by (auto simp: flow_jtt808_reply_def split: prod.splits sum.splits)
  moreover have "reports (snd (flow_jtt808_reply_slices lib ctx v f st x))" for ctx v f st x
    using reports_reply_prepare [of ctx f st] reports_frame_slices_write
    by (auto simp: flow_jtt808_reply_slices_def intro!: reports_and_then split: prod.splits sum.splits)
  ultimately show ?thesis
    by (auto simp: codec_reports_def plugin_ops_def FLOW_JTT808_DESCRIPTOR_def)
qed

lemma jtt808_keeps_slots: "codec_keeps_slots (plugin_ops (FLOW_JTT808_DESCRIPTOR lib))"
proof -
  have "sl_segments y \<noteq> None" if "flow_jtt808_frame_slices_write lib i d v s a bs x = Inr y" for i d v s a bs x y
    using that unfolding flow_jtt808_frame_slices_write_def Let_def
    by (simp only: guards) (auto simp: slices_put_def)
  then show ?thesis
    by (auto simp: codec_keeps_slots_def plugin_ops_def FLOW_JTT808_DESCRIPTOR_def
        flow_jtt808_reply_slices_def guards split: prod.splits sum.splits)
qed

section \<open>Witnesses\<close>

definition sample_phone :: ctext where "sample_phone = replicate 20 0x31"

lemma sample_phone_ok: "length sample_phone = 20" "\<forall>c \<in> set sample_phone. 0x30 \<le> c \<and> c \<le> 0x39"
  "segment_ok sample_phone PROTOCOL_DEVICE_ID_MAX" "sample_phone \<noteq> []"
  by (simp_all add: sample_phone_def segment_ok_iff plain_def protocol_limits)

definition sample_lib :: mem_lib where
  "sample_lib = \<lparr>ml_get = \<lambda>n k. True,
     ml_slice = \<lambda>used offset len. \<lparr>ms_buffer = Some used, ms_offset = Some (int offset), ms_length = len\<rparr>\<rparr>"

lemma sample_lib_law: "mem_lib_law sample_lib"
  by (simp add: mem_lib_law_def sample_lib_def)

lemma sample_frame:
  "\<exists>y. flow_jtt808_frame_write 0x0900 (Some sample_phone) True 7 1 [1, 0x7b, 0x7d] (sample_output 64) = Inr y \<and>
     fo_data_size y \<le> 44"
  using frame_write_succeeds [of sample_phone True 7 "[1, 0x7b, 0x7d]" 1 "sample_output 64" "0x0900"]
  by (simp add: sample_phone_ok)

definition sample_semantic :: semantic_output where
  "sample_semantic = \<lparr>so_size = ExactSize, so_abi_version = PROTOCOL_ABI_VERSION, so_data = 16384,
     so_bytes = replicate 8 0, so_data_size = 0, so_semantic_type = 0, so_media_type = []\<rparr>"

theorem jtt808_delimited_witness:
  "\<exists>y inner. flow_jtt808_frame_write 0x0900 (Some sample_phone) True 7 1 [1, 0x7b, 0x7d] (sample_output 64) =
     Inr y \<and> take (fo_data_size y) (fo_bytes y) = [0x7e] @ inner @ [0x7e] \<and> 0x7e \<notin> set inner"
  using sample_frame jtt808_delimited by blast

lemma jtt808_instance:
  "0 < n \<Longrightarrow> opened (FLOW_JTT808_DESCRIPTOR lib) (plugin_instance (FLOW_JTT808_DESCRIPTOR lib) n)"
  by (rule plugin_instance_opened) (simp_all add: FLOW_JTT808_DESCRIPTOR_def
      flow_protocol_kind_valid_def segment_ok_iff plain_def ctext_of_def protocol_limits)

theorem jtt808_encode_delivers_witness:
  "\<exists>y. turbo_flow_protocol_encode (Some (plugin_instance (FLOW_JTT808_DESCRIPTOR sample_lib) 64))
     (Some (sample_command sample_phone ''call'' 7 [1, 2])) (Some (sample_output 64)) = (SALTS_OK, Some y) \<and>
   pm_device_id (fo_metadata y) = sample_phone \<and> pm_operation (fo_metadata y) = ctext_of ''call'' \<and>
   pm_sequence (fo_metadata y) = 7 \<and> pm_message_type (fo_metadata y) = 0x8400"
proof -
  let ?p = "plugin_instance (FLOW_JTT808_DESCRIPTOR sample_lib) 64"
  let ?c = "sample_command sample_phone ''call'' 7 [1, 2]"
  have c: "flow_protocol_command_validate (Some ?p) (Some ?c) = SALTS_OK"
    by (rule sample_command_valid) (simp_all add: sample_phone_ok name_ok_def ctext_of_def plain_def)
  have i: "flow_jtt808_message_id (Some (ctext_of ''call'')) = Inr 0x8400"
    by (simp add: flow_jtt808_message_id_def ctext_of_def)
  show ?thesis
    using jtt808_encode_delivers [OF jtt808_instance c sample_output_valid _ _ _ _ i] sample_phone_ok
    by simp
qed

lemma sample_inspected_phone:
  assumes y: "flow_jtt808_frame_write 0x0900 (Some sample_phone) True 7 1 [1, 0x7b, 0x7d]
    (sample_output 64) = Inr y" and "fo_data_size y \<le> 64"
  defines "f \<equiv> sample_view (take (fo_data_size y) (fo_bytes y))"
  shows "flow_jtt808_inspect v f m = Inr (m\<lparr>pm_device_id := sample_phone, pm_message_type := 0x0900,
      pm_sequence := 7, pm_operation := ctext_of ''transparent-data''\<rparr>)"
    and "\<exists>rm. flow_protocol_inspect (Some (plugin_instance (FLOW_JTT808_DESCRIPTOR lib) 64)) (Some f)
      DIRECTION_UP = Inr rm \<and> pm_device_id rm = sample_phone \<and> pm_sequence rm = 7 \<and>
      pm_message_type rm = 0x0900"
proof -
  have oper: "jtt808_operation 0x0900 = Some ''transparent-data''" by (simp add: jtt808_operation_def)
  note w = jtt808_written_frame [OF y oper jtt808_operation_ok [OF oper]]
  obtain bs where "y = frame_put bs (sample_output 64)" "bs \<noteq> []" "length bs \<le> 64"
    using w [of "[]"] by auto
  then have bytes: "fv_bytes f \<noteq> []" "length (fv_bytes f) \<le> 64" by (simp_all add: f_def)
  show i: "flow_jtt808_inspect v f m = Inr (m\<lparr>pm_device_id := sample_phone, pm_message_type := 0x0900,
      pm_sequence := 7, pm_operation := ctext_of ''transparent-data''\<rparr>)" for v m
    using w [of v] by (auto simp: f_def)
  have op: "opened (FLOW_JTT808_DESCRIPTOR lib) (plugin_instance (FLOW_JTT808_DESCRIPTOR lib) 64)"
    by (rule jtt808_instance) simp
  note g = i [unfolded f_def]
  show "\<exists>rm. flow_protocol_inspect (Some (plugin_instance (FLOW_JTT808_DESCRIPTOR lib) 64)) (Some f)
      DIRECTION_UP = Inr rm \<and> pm_device_id rm = sample_phone \<and> pm_sequence rm = 7 \<and>
      pm_message_type rm = 0x0900"
    using sample_inspected [OF op jtt808_descriptor(1) g jtt808_inspect_sound [OF g]] bytes
    by (simp add: f_def sample_phone_ok host_filled_def)
qed

theorem jtt808_reply_delivers_witness:
  "\<exists>f y h. turbo_flow_protocol_reply (Some (plugin_instance (FLOW_JTT808_DESCRIPTOR sample_lib) 64))
     (Some (sample_view f)) SALTS_OK (Some (sample_output 64)) =
     (Some ((plugin_instance (FLOW_JTT808_DESCRIPTOR sample_lib) 64)\<lparr>ps_codec_ctx := Some 2\<rparr>), SALTS_OK, Some y) \<and>
   take (fo_data_size y) (fo_bytes y) = jtt808_frame h [0, 7, 9, 0, 0]"
proof -
  obtain y where y: "flow_jtt808_frame_write 0x0900 (Some sample_phone) True 7 1 [1, 0x7b, 0x7d]
      (sample_output 64) = Inr y" "fo_data_size y \<le> 64" using sample_frame by force
  obtain rm where rm: "flow_protocol_inspect (Some (plugin_instance (FLOW_JTT808_DESCRIPTOR sample_lib) 64))
      (Some (sample_view (take (fo_data_size y) (fo_bytes y)))) DIRECTION_UP = Inr rm"
    "pm_sequence rm = 7" "pm_message_type rm = 0x0900"
    using sample_inspected_phone(2) [OF y] by blast
  have ctx: "ps_codec_ctx (plugin_instance (FLOW_JTT808_DESCRIPTOR sample_lib) 64) = Some 1"
    by (simp add: FLOW_JTT808_DESCRIPTOR_def)
  have next1: "flow_jtt808_next_serial (Some 1) = (Some 2, 2)"
    by (simp add: flow_jtt808_next_serial_def word_le_nat_alt)
  have low: "(2304 :: u8) = 0" by code_simp
  show ?thesis
    using jtt808_reply_delivers [OF jtt808_instance ctx rm(1) sample_output_valid [of 64],
        where st = SALTS_OK] rm(2,3)
    by (auto simp: next1 hi8_def lo8_def jtt808_result_def low)
qed

theorem jtt808_semantic_inspects_witness:
  "\<exists>f m'. flow_jtt808_inspect [] (sample_view f) METADATA_INIT = Inr m' \<and>
     pm_operation m' = ctext_of ''transparent-data'' \<and> 
     (\<exists>s'. flow_jtt808_decode_semantic [] (sample_view f) METADATA_INIT sample_semantic = Inr (m', s'))"
proof -
  obtain y where y: "flow_jtt808_frame_write 0x0900 (Some sample_phone) True 7 1 [1, 0x7b, 0x7d]
      (sample_output 64) = Inr y" "fo_data_size y \<le> 64" using sample_frame by force
  let ?f = "take (fo_data_size y) (fo_bytes y)"
  let ?m = "METADATA_INIT\<lparr>pm_device_id := sample_phone, pm_message_type := 0x0900,
      pm_sequence := 7, pm_operation := ctext_of ''transparent-data''\<rparr>"
  obtain s' where s': "flow_jtt808_decode_semantic [] (sample_view ?f) METADATA_INIT sample_semantic =
      Inr (?m, s')"
    using jtt808_written_content [OF y(1), of "sample_view ?f" sample_semantic "[]" METADATA_INIT]
    by (simp add: sample_semantic_def)
  show ?thesis
    using jtt808_semantic_inspects [OF s'] s' by (intro exI [of _ ?f] exI [of _ ?m]) auto
qed

definition sample_slices :: slices_output where
  "sample_slices = \<lparr>sl_size = ExactSize, sl_abi_version = PROTOCOL_ABI_VERSION,
     sl_segments = Some (replicate 5 EMPTY_SLICE), sl_segment_count = 0, sl_data_size = 0,
     sl_metadata = METADATA_INIT\<rparr>"

theorem jtt808_reply_slices_agree_witness:
  "\<exists>f c y z. flow_jtt808_reply (Some 1) [] (sample_view f) SALTS_OK (sample_output 64) = (c, Inr y) \<and>
     flow_jtt808_reply_slices sample_lib (Some 1) [] (sample_view f) SALTS_OK sample_slices = (c, Inr z) \<and>
     concat (map slice_bytes (take (sl_segment_count z) (the (sl_segments z)))) =
       take (fo_data_size y) (fo_bytes y)"
proof -
  obtain y0 where y0: "flow_jtt808_frame_write 0x0900 (Some sample_phone) True 7 1 [1, 0x7b, 0x7d]
      (sample_output 64) = Inr y0" "fo_data_size y0 \<le> 64" using sample_frame by force
  let ?f = "sample_view (take (fo_data_size y0) (fo_bytes y0))"
  obtain d dev where d: "jtt808_accepted ?f d" "bcd_digits (jtt808_phone d) = Inr dev"
    using jtt808_inspect_accepted [OF sample_inspected_phone(1) [OF y0]] by blast
  have n: "flow_jtt808_next_serial (Some 1) = (Some 2, 2)"
    by (simp add: flow_jtt808_next_serial_def word_le_nat_alt)
  obtain y where y: "flow_jtt808_reply (Some 1) [] ?f SALTS_OK (sample_output 64) = (Some 2, Inr y)"
    using jtt808_reply_succeeds [OF d n, of "sample_output 64"] by auto
  obtain dv ver body serial where
    prep: "flow_jtt808_reply_prepare (Some 1) ?f SALTS_OK = (Some 2, Inr (dv, ver, body, serial))"
    and w: "flow_jtt808_frame_write 0x8001 (Some dv) ver serial 1 body (sample_output 64) = Inr y"
    using y by (auto simp: flow_jtt808_reply_def split: prod.splits sum.splits)
  obtain h where "flow_jtt808_frame_header 0x8001 (Some dv) ver serial (length body) 17 = Inr h"
    using frame_write_Inr [OF w] by blast
  then obtain z where z: "flow_jtt808_reply_slices sample_lib (Some 1) [] ?f SALTS_OK sample_slices = (Some 2, Inr z)"
    using frame_slices_write_succeeds [OF sample_lib_law, of _ _ _ _ body h 1 sample_slices] prep
    by (fastforce simp: flow_jtt808_reply_slices_def sample_lib_def sample_slices_def)
  show ?thesis
    using jtt808_reply_slices_agree [OF sample_lib_law _ y z, of "sample_view (take (fo_data_size y) (fo_bytes y))"]
      y z by (auto simp: sample_slices_def)
qed

end
