(* ===== verification/Flow_GBT32960.thy ===== *)
theory Flow_GBT32960
  imports Flow_Protocol_Contract
begin

unbundle bit_operations_syntax

text \<open>
  The GB/T 32960 codec: the model of \<open>ingress/protocol/gbt32960/flow_protocol_gbt32960.c\<close>.

  A frame has a fixed 24-byte header (two start bytes, command, response flag, the 17-character
  vehicle identification, encryption mode and body size), the body, and a checksum over all bytes
  after the start bytes.  The codec keeps no state; its context is a NULL pointer, of type
  \<^typ>\<open>unit\<close> here.
\<close>

section \<open>Model\<close>

definition GBT32960_FRAME_OVERHEAD :: nat where "GBT32960_FRAME_OVERHEAD = 25"

definition gbt32960_operation :: "u8 \<Rightarrow> string option" where
  "gbt32960_operation c =
     (if c = 0x01 then Some ''vehicle-login'' else if c = 0x02 then Some ''realtime-data''
      else if c = 0x03 then Some ''reissue-data'' else if c = 0x04 then Some ''vehicle-logout''
      else if c = 0x05 then Some ''platform-login'' else if c = 0x06 then Some ''platform-logout''
      else if c = 0x07 then Some ''heartbeat'' else if c = 0x08 then Some ''time-sync'' else None)"

definition flow_gbt32960_inspect :: inspect_fn where
  "flow_gbt32960_inspect configured_version f metadata =
     (let data = fv_bytes f; n = length data in
      if n < GBT32960_FRAME_OVERHEAD \<or> data ! 0 \<noteq> 0x23 \<or> data ! 1 \<noteq> 0x23 then Inl SALTS_EPROTO
      else if data ! 3 \<noteq> 0x01 \<and> data ! 3 \<noteq> 0x02 \<and> data ! 3 \<noteq> 0x03 \<and> data ! 3 \<noteq> 0xfe
      then Inl SALTS_EPROTO
      else if data ! 21 = 0 then Inl SALTS_EPROTO
      else
        (let body_size = unat (be16 (data ! 22) (data ! 23)) in
         if body_size > unat SIZE_MAX - GBT32960_FRAME_OVERHEAD then Inl SALTS_EMSGSIZE
         else if n \<noteq> body_size + GBT32960_FRAME_OVERHEAD then Inl SALTS_EPROTO
         else if xor_bytes (take (n - 3) (drop 2 data)) \<noteq> data ! (n - 1) then Inl SALTS_EPROTO
         else if \<exists>v \<in> set (take 17 (drop 4 data)).
                   v \<le> 0x20 \<or> v \<ge> 0x7f \<or> v = 0x2f \<or> v = 0x2b \<or> v = 0x23
         then Inl SALTS_EPROTO
         else set_operation (gbt32960_operation (data ! 2)) (ctext_of ''command-'' @ hex2 (data ! 2))
                (metadata\<lparr>pm_device_id := take 17 (drop 4 data),
                          pm_message_type := ucast (data ! 2)\<rparr>)))"

definition flow_gbt32960_response :: "status \<Rightarrow> u8" where
  "flow_gbt32960_response status =
     (if status = SALTS_OK then 0x01 else if status = SALTS_EALREADY then 0x03 else 0x02)"

definition flow_gbt32960_frame_write ::
    "u8 \<Rightarrow> u8 \<Rightarrow> ctext option \<Rightarrow> u64 \<Rightarrow> u8 list \<Rightarrow> frame_output \<Rightarrow> status + frame_output" where
  "flow_gbt32960_frame_write command response device_id body body_bytes output =
     (if device_id = None \<or> length (the device_id) \<noteq> 17 \<or> fo_data output = 0 \<or>
         body = 0 \<and> length body_bytes \<noteq> 0
      then Inl SALTS_EINVAL
      else if length body_bytes > 0xffff then Inl SALTS_EMSGSIZE
      else if GBT32960_FRAME_OVERHEAD + length body_bytes > length (fo_bytes output)
      then Inl SALTS_EMSGSIZE
      else
        (let covered = [command, response] @ the device_id @
               [0x01, hi8 (of_nat (length body_bytes)), lo8 (of_nat (length body_bytes))] @ body_bytes
         in Inr (frame_put ([0x23, 0x23] @ covered @ [xor_bytes covered]) output)))"

text \<open>The device identification of a request is copied to a C string: it ends at the first NUL.\<close>

definition flow_gbt32960_reply :: "unit reply_fn" where
  "flow_gbt32960_reply ctx configured_version request status output =
     (let data = fv_bytes request in
      if fv_data request = 0 \<or> length data < GBT32960_FRAME_OVERHEAD then (ctx, Inl SALTS_EINVAL)
      else (ctx, flow_gbt32960_frame_write (data ! 2) (flow_gbt32960_response status)
              (Some (takeWhile (\<lambda>b. b \<noteq> 0) (take 17 (drop 4 data)))) 0 [] output))"

definition flow_gbt32960_command :: "ctext option \<Rightarrow> status + u8" where
  "flow_gbt32960_command operation =
     (if operation = None then Inl SALTS_EINVAL
      else if the operation = ctext_of ''vehicle-login'' then Inr 0x01
      else if the operation = ctext_of ''realtime-data'' then Inr 0x02
      else if the operation = ctext_of ''reissue-data'' then Inr 0x03
      else if the operation = ctext_of ''vehicle-logout'' then Inr 0x04
      else if the operation = ctext_of ''platform-login'' then Inr 0x05
      else if the operation = ctext_of ''platform-logout'' then Inr 0x06
      else if the operation = ctext_of ''heartbeat'' then Inr 0x07
      else if the operation = ctext_of ''time-sync'' then Inr 0x08
      else Inl SALTS_ENOTSUP)"

definition flow_gbt32960_encode :: encode_fn where
  "flow_gbt32960_encode configured_version command output =
     and_then (flow_gbt32960_command (cv_operation command)) (\<lambda>command_id.
       flow_gbt32960_frame_write command_id 0xfe (cv_device_id command) (cv_payload command)
         (cv_bytes command) output)"

definition FLOW_GBT32960_DESCRIPTOR :: "unit plugin_descriptor" where
  "FLOW_GBT32960_DESCRIPTOR =
     \<lparr>pd_name = ctext_of ''gbt32960'', pd_protocol = PROTOCOL_GBT_32960,
      pd_default_version = ctext_of ''2025'', pd_versions = [ctext_of ''2025''],
      pd_inspect = Some flow_gbt32960_inspect, pd_reply = Some flow_gbt32960_reply,
      pd_encode = Some flow_gbt32960_encode, pd_inspect_ctx = (),
      pd_decode_semantic = None, pd_reply_slices = None\<rparr>"

section \<open>Frames\<close>

lemma gbt32960_operation_ok: "gbt32960_operation c = Some s \<Longrightarrow> name_ok s"
  by (auto simp: gbt32960_operation_def name_ok_def ctext_of_def plain_def split: if_splits)

lemma gbt32960_command_ok: "segment_ok (ctext_of ''command-'' @ hex2 c) PROTOCOL_OPERATION_MAX"
proof (rule segment_ok_format)
  show "name_ok ''command-''" by (simp add: name_ok_def ctext_of_def plain_def)
qed (auto intro: plain_hex2)

text \<open>The frame of a command, a response flag, a vehicle and a body.\<close>

definition gbt32960_covered :: "u8 \<Rightarrow> u8 \<Rightarrow> ctext \<Rightarrow> u8 list \<Rightarrow> u8 list" where
  "gbt32960_covered command response dev body =
     [command, response] @ dev @
     [0x01, hi8 (of_nat (length body)), lo8 (of_nat (length body))] @ body"

definition gbt32960_frame :: "u8 \<Rightarrow> u8 \<Rightarrow> ctext \<Rightarrow> u8 list \<Rightarrow> u8 list" where
  "gbt32960_frame command response dev body =
     [0x23, 0x23] @ gbt32960_covered command response dev body @
     [xor_bytes (gbt32960_covered command response dev body)]"

lemma gbt32960_frame_write_Inr:
  "flow_gbt32960_frame_write c r device a body x = Inr y \<longleftrightarrow>
     (\<exists>dev. device = Some dev \<and> length dev = 17 \<and> fo_data x \<noteq> 0 \<and> (a \<noteq> 0 \<or> body = []) \<and>
        length body \<le> 0xffff \<and> 25 + length body \<le> length (fo_bytes x) \<and>
        y = frame_put (gbt32960_frame c r dev body) x)"
  by (cases device) (auto simp: flow_gbt32960_frame_write_def GBT32960_FRAME_OVERHEAD_def Let_def
      gbt32960_frame_def gbt32960_covered_def)

lemma gbt32960_frame_parts:
  assumes "length dev = 17"
  shows "length (gbt32960_covered c r dev body) = 22 + length body"
    and "length (gbt32960_frame c r dev body) = 25 + length body"
  using assms by (simp_all add: gbt32960_frame_def gbt32960_covered_def)

lemma gbt32960_frame_header:
  assumes "length dev = 17"
  shows "gbt32960_frame c r dev body ! 0 = 0x23" "gbt32960_frame c r dev body ! 1 = 0x23"
    "gbt32960_frame c r dev body ! 2 = c" "gbt32960_frame c r dev body ! 3 = r"
    "take 17 (drop 4 (gbt32960_frame c r dev body)) = dev"
    "gbt32960_frame c r dev body ! 21 = 0x01"
    "gbt32960_frame c r dev body ! 22 = hi8 (of_nat (length body))"
    "gbt32960_frame c r dev body ! 23 = lo8 (of_nat (length body))"
  using assms by (simp_all add: gbt32960_frame_def gbt32960_covered_def nth_append)

lemma gbt32960_frame_checksum:
  assumes "length dev = 17"
  shows "xor_bytes (take (25 + length body - 3) (drop 2 (gbt32960_frame c r dev body))) =
    gbt32960_frame c r dev body ! (25 + length body - 1)"
  using gbt32960_frame_parts(1) [OF assms, of c r body]
  by (simp add: gbt32960_frame_def nth_append numeral_2_eq_2)

lemma gbt32960_vin_byte:
  "v \<le> 0x20 \<or> v \<ge> 0x7f \<or> v = 0x2f \<or> v = 0x2b \<or> v = 0x23 \<longleftrightarrow> \<not> plain v"
  unfolding plain_def by (simp only: de_Morgan_conj not_not not_less)

lemma gbt32960_inspect_frame:
  assumes "length dev = 17" and "\<forall>b \<in> set dev. plain b" and "r \<in> {0x01, 0x02, 0x03, 0xfe}"
    and "length body \<le> 0xffff" and "fv_bytes g = gbt32960_frame c r dev body"
  shows "flow_gbt32960_inspect v g m =
    set_operation (gbt32960_operation c) (ctext_of ''command-'' @ hex2 c)
      (m\<lparr>pm_device_id := dev, pm_message_type := ucast c\<rparr>)"
proof -
  have body: "unat (be16 (hi8 (of_nat (length body))) (lo8 (of_nat (length body)))) = length body"
    using assms(4) by (simp add: unat_of_nat)
  have dev: "\<not> (\<exists>v \<in> set dev. \<not> plain v)" using assms(2) by blast
  have resp: "\<not> (r \<noteq> 0x01 \<and> r \<noteq> 0x02 \<and> r \<noteq> 0x03 \<and> r \<noteq> 0xfe)" using assms(3) by auto
  have size: "\<not> length body > unat SIZE_MAX - 25" using assms(4) by (simp add: unat_UINT64_MAX)
  show ?thesis
    unfolding flow_gbt32960_inspect_def gbt32960_vin_byte Let_def assms(5) GBT32960_FRAME_OVERHEAD_def
      gbt32960_frame_parts(2) [OF assms(1)] gbt32960_frame_header [OF assms(1)]
      gbt32960_frame_checksum [OF assms(1)] body if_not_P [OF dev] if_not_P [OF resp]
      if_not_P [OF size]
    by simp
qed

section \<open>Accepted frames\<close>

lemma gbt32960_inspect_Inr:
  assumes "flow_gbt32960_inspect v f m = Inr m'"
  shows "25 \<le> length (fv_bytes f)" and "length (take 17 (drop 4 (fv_bytes f))) = 17"
    and "\<forall>b \<in> set (take 17 (drop 4 (fv_bytes f))). plain b"
    and "set_operation (gbt32960_operation (fv_bytes f ! 2)) (ctext_of ''command-'' @ hex2 (fv_bytes f ! 2))
           (m\<lparr>pm_device_id := take 17 (drop 4 (fv_bytes f)),
              pm_message_type := ucast (fv_bytes f ! 2)\<rparr>) = Inr m'"
  using assms
  unfolding flow_gbt32960_inspect_def gbt32960_vin_byte Let_def GBT32960_FRAME_OVERHEAD_def
  by (simp_all only: guards) auto

lemma gbt32960_inspect_metadata:
  assumes "flow_gbt32960_inspect v f m = Inr m'"
  shows "\<exists>oper. segment_ok oper PROTOCOL_OPERATION_MAX \<and>
    m' = m\<lparr>pm_device_id := take 17 (drop 4 (fv_bytes f)),
            pm_message_type := ucast (fv_bytes f ! 2), pm_operation := oper\<rparr>"
  using set_operation_sound [OF gbt32960_inspect_Inr(4) [OF assms]] gbt32960_operation_ok
    gbt32960_command_ok by blast

lemma gbt32960_inspect_sound: "flow_gbt32960_inspect v f METADATA_INIT = Inr m \<Longrightarrow> metadata_sound m"
  using gbt32960_inspect_metadata [of v f METADATA_INIT m] gbt32960_inspect_Inr(2,3) [of v f METADATA_INIT m]
  by (auto simp: metadata_sound_def METADATA_INIT_def segment_ok_iff protocol_limits)

lemma plain_takeWhile: "\<forall>b \<in> set t. plain b \<Longrightarrow> takeWhile (\<lambda>b. b \<noteq> 0) t = t"
  by (auto simp: takeWhile_eq_all_conv plain_nonzero)

text \<open>The reply to an accepted request: the same command and vehicle, no body.\<close>

lemma gbt32960_reply_eq:
  assumes "flow_gbt32960_inspect v f m = Inr m'" and "fv_data f \<noteq> 0"
  shows "flow_gbt32960_reply s v f st x = (s, flow_gbt32960_frame_write (fv_bytes f ! 2)
    (flow_gbt32960_response st) (Some (pm_device_id m')) 0 [] x)"
  using gbt32960_inspect_Inr [OF assms(1)] gbt32960_inspect_metadata [OF assms(1)] assms(2)
  by (auto simp: flow_gbt32960_reply_def Let_def GBT32960_FRAME_OVERHEAD_def plain_takeWhile)

lemma gbt32960_response_valid: "flow_gbt32960_response st \<in> {0x01, 0x02, 0x03, 0xfe}"
  by (simp add: flow_gbt32960_response_def)

lemma gbt32960_named:
  "set_operation (gbt32960_operation c) (ctext_of ''command-'' @ hex2 c) m =
     Inr (m\<lparr>pm_operation := (case gbt32960_operation c of
       Some s \<Rightarrow> ctext_of s | None \<Rightarrow> ctext_of ''command-'' @ hex2 c)\<rparr>)"
  by (cases "gbt32960_operation c")
    (simp_all add: set_operation_name gbt32960_operation_ok set_operation_format ctext_of_def)

lemma gbt32960_command_operation:
  "flow_gbt32960_command (Some t) = Inr c \<Longrightarrow> \<exists>s. gbt32960_operation c = Some s \<and> t = ctext_of s"
  by (auto simp: flow_gbt32960_command_def gbt32960_operation_def split: if_splits)

interpretation gbt32960: protocol_codec flow_gbt32960_inspect flow_gbt32960_reply flow_gbt32960_encode
proof
  fix v f m
  show "flow_gbt32960_inspect v f METADATA_INIT = Inr m \<Longrightarrow> metadata_sound m"
    by (rule gbt32960_inspect_sound)
next
  fix v f m s st x s' y
  assume a: "flow_gbt32960_inspect v f METADATA_INIT = Inr m"
    and r: "flow_gbt32960_reply s v f st x = (s', Inr y)"
  have data: "fv_data f \<noteq> 0" using r by (auto simp: flow_gbt32960_reply_def split: if_splits)
  have dev: "length (pm_device_id m) = 17" "\<forall>b \<in> set (pm_device_id m). plain b"
    using gbt32960_inspect_Inr(2,3) [OF a] gbt32960_inspect_metadata [OF a] by auto
  let ?bs = "gbt32960_frame (fv_bytes f ! 2) (flow_gbt32960_response st) (pm_device_id m) []"
  have "y = frame_put ?bs x" "25 \<le> length (fo_bytes x)"
    using r gbt32960_reply_eq [OF a data] by (auto simp: gbt32960_frame_write_Inr)
  moreover have "\<exists>m'. flow_gbt32960_inspect v g METADATA_INIT = Inr m' \<and> pm_device_id m' = pm_device_id m"
    if "fv_bytes g = ?bs" for g
    using gbt32960_inspect_frame [OF dev gbt32960_response_valid _ that] by (simp add: gbt32960_named)
  ultimately show "\<exists>bs x'. y = frame_put bs x' \<and> fo_data x' = fo_data x \<and>
    length bs \<le> length (fo_bytes x') \<and>
    (bs \<noteq> [] \<longrightarrow> (\<forall>g. fv_data g \<noteq> 0 \<longrightarrow> fv_bytes g = bs \<longrightarrow>
      (\<exists>m'. flow_gbt32960_inspect v g METADATA_INIT = Inr m' \<and> pm_device_id m' = pm_device_id m)))"
    using gbt32960_frame_parts(2) [OF dev(1)] by (intro exI [of _ ?bs] exI [of _ x]) auto
next
  fix v c x y dev oper
  assume e: "flow_gbt32960_encode v c x = Inr y" and c: "cv_device_id c = Some dev"
    "cv_operation c = Some oper" and ok: "segment_ok dev PROTOCOL_DEVICE_ID_MAX"
  obtain i where i: "flow_gbt32960_command (Some oper) = Inr i"
    "flow_gbt32960_frame_write i 0xfe (Some dev) (cv_payload c) (cv_bytes c) x = Inr y"
    using e c by (auto simp: flow_gbt32960_encode_def and_then_Inr_iff)
  let ?bs = "gbt32960_frame i 0xfe dev (cv_bytes c)"
  have w: "length dev = 17" "length (cv_bytes c) \<le> 0xffff" "y = frame_put ?bs x"
    "25 + length (cv_bytes c) \<le> length (fo_bytes x)"
    using i(2) by (auto simp: gbt32960_frame_write_Inr)
  have "\<exists>m'. flow_gbt32960_inspect v g METADATA_INIT = Inr m' \<and> pm_operation m' = oper \<and>
      pm_device_id m' \<in> {[], dev}" if "fv_bytes g = ?bs" for g
    using gbt32960_inspect_frame [OF w(1) _ _ w(2) that] ok gbt32960_command_operation [OF i(1)]
    by (auto simp: gbt32960_named segment_ok_iff)
  then show "\<exists>bs. y = frame_put bs x \<and> length bs \<le> length (fo_bytes x) \<and> bs \<noteq> [] \<and>
    (\<forall>g. fv_data g \<noteq> 0 \<longrightarrow> fv_bytes g = bs \<longrightarrow>
      (\<exists>m'. flow_gbt32960_inspect v g METADATA_INIT = Inr m' \<and> pm_operation m' = oper \<and>
        pm_device_id m' \<in> {[], dev}))"
    using w gbt32960_frame_parts(2) [OF w(1)] by (intro exI [of _ ?bs]) (auto simp: gbt32960_frame_def)
qed

section \<open>Properties\<close>

lemma xor_bytes_update:
  assumes "j < length bs"
  shows "xor_bytes (bs[j := b]) = xor_bytes bs XOR (bs ! j XOR b)"
proof -
  have one: "xor_bytes (c # cs) = c XOR xor_bytes cs" for c cs
    using xor_bytes_append [of "[c]" cs] by (simp add: xor_bytes_def)
  have "xor_bytes bs = xor_bytes (take j bs) XOR (bs ! j XOR xor_bytes (drop (Suc j) bs))"
    using xor_bytes_append [of "take j bs" "bs ! j # drop (Suc j) bs"] assms
    by (simp add: one id_take_nth_drop [symmetric])
  moreover have "xor_bytes (bs[j := b]) = xor_bytes (take j bs) XOR (b XOR xor_bytes (drop (Suc j) bs))"
    using assms by (simp add: upd_conv_take_nth_drop xor_bytes_append one)
  ultimately show ?thesis by (simp add: ac_simps)
qed

lemma xor_changes: "a \<noteq> b \<Longrightarrow> c XOR (a XOR b) \<noteq> c" for a b c :: u8
proof
  assume ne: "a \<noteq> b" and "c XOR (a XOR b) = c"
  then have "c XOR (c XOR (a XOR b)) = 0" by simp
  then have "a XOR b = 0" by (simp add: xor.assoc [symmetric])
  then have "a XOR (a XOR b) = a" by simp
  then show False using ne by (simp add: xor.assoc [symmetric])
qed

lemma gbt32960_checksum_changed:
  assumes "25 \<le> n" and "length data = n" and "2 \<le> i" and "i < n" and "b \<noteq> data ! i"
    and "xor_bytes (take (n - 3) (drop 2 data)) = data ! (n - 1)"
  shows "xor_bytes (take (n - 3) (drop 2 (data[i := b]))) \<noteq> data[i := b] ! (n - 1)"
proof (cases "i = n - 1")
  case True
  then have "take (n - 3) (drop 2 (data[i := b])) = take (n - 3) (drop 2 data)"
    using assms(1,2) by (simp add: drop_update_swap)
  then show ?thesis using True assms by simp
next
  case False
  let ?c = "take (n - 3) (drop 2 data)"
  have "take (n - 3) (drop 2 (data[i := b])) = ?c[i - 2 := b]"
    using assms(3) by (simp add: drop_update_swap take_update_swap)
  moreover have at: "i - 2 < length ?c" "2 + (i - 2) = i" "i - 2 < n - 3" using False assms(1-4) by auto
  then have "?c ! (i - 2) = data ! i" using assms(2) by (simp add: nth_drop)
  ultimately have "xor_bytes (take (n - 3) (drop 2 (data[i := b]))) = xor_bytes ?c XOR (data ! i XOR b)"
    using xor_bytes_update [OF at(1), of b] by simp
  moreover have "xor_bytes ?c XOR (data ! i XOR b) \<noteq> xor_bytes ?c"
    by (rule xor_changes) (rule assms(5) [symmetric])
  ultimately show ?thesis using False assms(6) by simp
qed

definition sample_vin :: ctext where "sample_vin = ctext_of ''LSVAA2180E2123456''"

lemma sample_vin_ok: "length sample_vin = 17" "\<forall>b \<in> set sample_vin. plain b" "sample_vin \<noteq> []"
  "segment_ok sample_vin PROTOCOL_DEVICE_ID_MAX"
  by (simp_all add: sample_vin_def ctext_of_def plain_def segment_ok_iff protocol_limits)

lemma sample_frame_accepted:
  assumes "fv_bytes g = gbt32960_frame 2 0xfe sample_vin [1, 2]"
  shows "flow_gbt32960_inspect v g m = Inr (m\<lparr>pm_device_id := sample_vin, pm_message_type := 2,
    pm_operation := ctext_of ''realtime-data''\<rparr>)"
  using gbt32960_inspect_frame [OF sample_vin_ok(1,2) _ _ assms] gbt32960_named [of 2]
  by (simp add: gbt32960_operation_def)

text \<open>C16: The checksum detects every corrupted byte.  Changing any single byte of an accepted frame,
  be it in the start bytes, the header, the vehicle identification, the size, the body or the
  checksum itself, makes the frame a protocol error.\<close>

theorem gbt32960_corruption_detected:
  assumes "flow_gbt32960_inspect v f m = Inr m'" and "i < length (fv_bytes f)" and "b \<noteq> fv_bytes f ! i"
  shows "flow_gbt32960_inspect v (f\<lparr>fv_bytes := (fv_bytes f)[i := b]\<rparr>) m = Inl SALTS_EPROTO"
proof -
  let ?d = "fv_bytes f" and ?n = "length (fv_bytes f)"
  have ok: "25 \<le> ?n" "?d ! 0 = 0x23" "?d ! 1 = 0x23"
    "xor_bytes (take (?n - 3) (drop 2 ?d)) = ?d ! (?n - 1)"
    using assms(1)
    unfolding flow_gbt32960_inspect_def gbt32960_vin_byte Let_def GBT32960_FRAME_OVERHEAD_def
    by (simp_all only: guards) auto
  have small: "\<not> unat (be16 x y) > unat SIZE_MAX - 25" for x y
    using unsigned_less [of "be16 x y", where 'a = nat] by (simp add: unat_UINT64_MAX)
  show ?thesis
  proof (cases "i < 2")
    case True
    then have "i = 0 \<or> i = 1" by auto
    then have "?d[i := b] ! 0 \<noteq> 0x23 \<or> ?d[i := b] ! 1 \<noteq> 0x23" using ok(1-3) assms(2,3) by auto
    then show ?thesis by (simp add: flow_gbt32960_inspect_def Let_def)
  next
    case False
    then have chk: "xor_bytes (take (?n - 3) (drop 2 (?d[i := b]))) \<noteq> ?d[i := b] ! (?n - 1)"
      using gbt32960_checksum_changed [OF ok(1) refl _ assms(2,3) ok(4)] by simp
    have view: "fv_bytes (f\<lparr>fv_bytes := ?d[i := b]\<rparr>) = ?d[i := b]" by simp
    show ?thesis
      unfolding flow_gbt32960_inspect_def Let_def GBT32960_FRAME_OVERHEAD_def view
        length_list_update if_not_P [OF small] if_P [OF chk] if_cancel ..
  qed
qed

theorem gbt32960_corruption_detected_witness:
  "flow_gbt32960_inspect [] (sample_view ((gbt32960_frame 2 0xfe sample_vin [1, 2])[25 := 7]))
     METADATA_INIT = Inl SALTS_EPROTO"
proof -
  let ?d = "gbt32960_frame 2 0xfe sample_vin [1, 2]"
  have "25 < length ?d" "7 \<noteq> ?d ! 25"
    by (simp_all add: gbt32960_frame_def gbt32960_covered_def sample_vin_def ctext_of_def nth_append)
  then show ?thesis
    using gbt32960_corruption_detected [OF sample_frame_accepted [of "sample_view ?d" "[]" METADATA_INIT],
        of 25 7] by (simp add: sample_view_def FRAME_VIEW_INIT_def)
qed

lemma gbt32960_descriptor [simp]:
  "pd_inspect FLOW_GBT32960_DESCRIPTOR = Some flow_gbt32960_inspect"
  "pd_reply FLOW_GBT32960_DESCRIPTOR = Some flow_gbt32960_reply"
  "pd_encode FLOW_GBT32960_DESCRIPTOR = Some flow_gbt32960_encode"
  by (simp_all add: FLOW_GBT32960_DESCRIPTOR_def)

lemma gbt32960_opened:
  assumes "opened FLOW_GBT32960_DESCRIPTOR p"
  shows "protocol_wf p" "co_inspect (ps_ops p) = Some flow_gbt32960_inspect"
    "co_reply (ps_ops p) = Some flow_gbt32960_reply" "co_encode (ps_ops p) = Some flow_gbt32960_encode"
    "ps_capabilities p AND CAP_PROTOCOL_REPLY \<noteq> 0" "ps_capabilities p AND CAP_COMMAND_ENCODE \<noteq> 0"
  using assms by (simp_all add: opened_def plugin_ops_def)

lemma gbt32960_instance:
  "0 < n \<Longrightarrow> opened FLOW_GBT32960_DESCRIPTOR (plugin_instance FLOW_GBT32960_DESCRIPTOR n)"
  by (rule plugin_instance_opened) (simp_all add: FLOW_GBT32960_DESCRIPTOR_def
      flow_protocol_kind_valid_def segment_ok_iff plain_def ctext_of_def protocol_limits)

text \<open>C17: The encoder's answer is decided by the command alone.  For a valid command and output an
  instance of the GB/T 32960 service reports an unknown operation first, then a device that is not
  17 characters, then a body over 65535 bytes or a frame over the buffer or the instance's limit;
  every other command is encoded, and the frame carries command, vehicle and body.\<close>

theorem gbt32960_encode_decision:
  assumes "opened FLOW_GBT32960_DESCRIPTOR p"
    and "flow_protocol_command_validate (Some p) (Some c) = SALTS_OK"
    and "flow_protocol_frame_output_validate (Some x) = (SALTS_OK, Some x1)"
    and "cv_device_id c = Some dev" and "cv_operation c = Some oper"
    and "turbo_flow_protocol_encode (Some p) (Some c) (Some x) = (rc, Some y)"
  shows "case flow_gbt32960_command (Some oper) of
      Inl e \<Rightarrow> rc = e \<and> e = SALTS_ENOTSUP
    | Inr i \<Rightarrow>
        if length dev \<noteq> 17 then rc = SALTS_EINVAL
        else if length (cv_bytes c) > 0xffff \<or> 25 + length (cv_bytes c) > length (fo_bytes x) \<or>
                25 + length (cv_bytes c) > ps_max_frame_size p
        then rc = SALTS_EMSGSIZE
        else rc = SALTS_OK \<and>
          take (fo_data_size y) (fo_bytes y) = gbt32960_frame i 0xfe dev (cv_bytes c) \<and>
          pm_device_id (fo_metadata y) = dev \<and> pm_operation (fo_metadata y) = oper"
proof -
  note op = gbt32960_opened [OF assms(1)]
  have x1: "fo_data x1 \<noteq> 0" "fo_bytes x1 = fo_bytes x"
    using assms(3) by (auto simp: frame_output_validate_OK)
  have cv: "cv_payload c \<noteq> 0 \<or> cv_bytes c = []" "segment_ok dev PROTOCOL_DEVICE_ID_MAX"
    using command_validate_OK [OF assms(2)] assms(4) by auto
  note host = gbt32960.host_encode [OF op(1,2,4,6) assms(2,4,5) cv(2) assms(3)]
  show ?thesis
  proof (cases "flow_gbt32960_command (Some oper)")
    case (Inl e)
    then have "e = SALTS_ENOTSUP" by (auto simp: flow_gbt32960_command_def split: if_splits)
    then show ?thesis using Inl host assms(5,6) by (simp add: flow_gbt32960_encode_def)
  next
    case (Inr i)
    then have enc: "flow_gbt32960_encode v c x1 =
        flow_gbt32960_frame_write i 0xfe (Some dev) (cv_payload c) (cv_bytes c) x1" for v
      using assms(4,5) by (simp add: flow_gbt32960_encode_def)
    have w: "flow_gbt32960_frame_write i 0xfe (Some dev) (cv_payload c) (cv_bytes c) x1 =
       (if length dev \<noteq> 17 then Inl SALTS_EINVAL
        else if length (cv_bytes c) > 0xffff \<or> 25 + length (cv_bytes c) > length (fo_bytes x)
        then Inl SALTS_EMSGSIZE else Inr (frame_put (gbt32960_frame i 0xfe dev (cv_bytes c)) x1))"
      using x1 cv(1) by (auto simp: flow_gbt32960_frame_write_def Let_def gbt32960_frame_def
          gbt32960_covered_def GBT32960_FRAME_OVERHEAD_def)
    have sz: "length dev = 17 \<Longrightarrow>
      fo_data_size (frame_put (gbt32960_frame i 0xfe dev (cv_bytes c)) x1) = 25 + length (cv_bytes c)"
      by (simp add: frame_put_def gbt32960_frame_parts)
    have bytes: "length dev = 17 \<Longrightarrow> take (25 + length (cv_bytes c))
        (fo_bytes (frame_put (gbt32960_frame i 0xfe dev (cv_bytes c)) x1)) =
      gbt32960_frame i 0xfe dev (cv_bytes c)"
      by (simp add: frame_put_def overwrite_def gbt32960_frame_parts)
    show ?thesis
      using host assms(6) sz bytes unfolding enc w Inr by (auto simp: host_filled_def split: if_splits)
  qed
qed

theorem gbt32960_encode_decision_witness:
  "fst (turbo_flow_protocol_encode (Some (plugin_instance FLOW_GBT32960_DESCRIPTOR 64))
     (Some (sample_command sample_vin ''heartbeat'' 0 [9])) (Some (sample_output 64))) = SALTS_OK \<and>
   fst (turbo_flow_protocol_encode (Some (plugin_instance FLOW_GBT32960_DESCRIPTOR 64))
     (Some (sample_command sample_vin ''heartbeat'' 0 [9])) (Some (sample_output 25))) = SALTS_EMSGSIZE"
proof -
  let ?p = "plugin_instance FLOW_GBT32960_DESCRIPTOR 64"
  let ?c = "sample_command sample_vin ''heartbeat'' 0 [9]"
  have c: "flow_protocol_command_validate (Some ?p) (Some ?c) = SALTS_OK"
    by (rule sample_command_valid) (simp_all add: sample_vin_ok name_ok_def ctext_of_def plain_def)
  have op: "flow_gbt32960_command (Some (ctext_of ''heartbeat'')) = Inr 7"
    by (simp add: flow_gbt32960_command_def ctext_of_def)
  have out: "\<exists>rc y. turbo_flow_protocol_encode (Some ?p) (Some ?c) (Some (sample_output n)) = (rc, Some y)"
    if "0 < n" for n
    using sample_output_valid [OF that]
    by (auto simp: turbo_flow_protocol_encode_def split: sum.splits prod.splits)
  have dec: "fst (turbo_flow_protocol_encode (Some ?p) (Some ?c) (Some (sample_output n))) =
      (if n < 26 then SALTS_EMSGSIZE else SALTS_OK)" if n: "0 < n" for n
  proof -
    obtain rc y where e: "turbo_flow_protocol_encode (Some ?p) (Some ?c) (Some (sample_output n)) = (rc, Some y)"
      using out [OF n] by blast
    show ?thesis
      using gbt32960_encode_decision [OF gbt32960_instance c sample_output_valid [OF n], of sample_vin _ rc y] e
      by (auto simp: op sample_vin_ok split: if_splits)
  qed
  show ?thesis using dec [of 64] dec [of 25] by simp
qed

text \<open>C18: Every accepted request can be answered.  To a request it accepts, an instance of the
  GB/T 32960 service replies, given 25 bytes of room, with a frame of exactly that size that
  repeats the command and the vehicle, carries no body and reports the settlement: 1 for success,
  3 for a duplicate and 2 for any other status.\<close>

theorem gbt32960_reply_delivers:
  assumes "opened FLOW_GBT32960_DESCRIPTOR p"
    and "flow_protocol_inspect (Some p) (Some f) DIRECTION_UP = Inr rm"
    and "flow_protocol_frame_output_validate (Some x) = (SALTS_OK, Some x1)"
    and "25 \<le> length (fo_bytes x)" and "25 \<le> ps_max_frame_size p"
  shows "\<exists>y. turbo_flow_protocol_reply (Some p) (Some f) st (Some x) = (Some p, SALTS_OK, Some y) \<and>
    take (fo_data_size y) (fo_bytes y) = gbt32960_frame (ucast (pm_message_type rm))
      (if st = SALTS_OK then 1 else if st = SALTS_EALREADY then 3 else 2) (pm_device_id rm) [] \<and>
    pm_message_type (fo_metadata y) = pm_message_type rm \<and>
    pm_device_id (fo_metadata y) = pm_device_id rm"
proof -
  note op = gbt32960_opened [OF assms(1)]
  let ?v = "ps_protocol_version p" and ?c = "fv_bytes f ! 2" and ?r = "flow_gbt32960_response st"
  obtain i where i: "flow_gbt32960_inspect ?v f METADATA_INIT = Inr i"
    and fin: "flow_protocol_metadata_finalize p f DIRECTION_UP i = Inr rm"
    and data: "fv_data f \<noteq> 0"
    using assms(2) op(2) by (auto simp: inspect_Inr frame_validate_OK)
  have im: "pm_message_type i = ucast ?c" "length (pm_device_id i) = 17"
    "\<forall>b \<in> set (pm_device_id i). plain b"
    using gbt32960_inspect_metadata [OF i] gbt32960_inspect_Inr(2,3) [OF i] by auto
  then have rm: "pm_device_id rm = pm_device_id i" "pm_message_type rm = ucast ?c"
    using finalize_Inr [OF fin op(1)] by (auto simp: host_filled_def)
  have x1: "fo_data x1 \<noteq> 0" "25 \<le> length (fo_bytes x1)"
    using assms(3,4) by (auto simp: frame_output_validate_OK)
  let ?bs = "gbt32960_frame ?c ?r (pm_device_id rm) []"
  have reply: "flow_gbt32960_reply (ps_codec_ctx p) ?v f st x1 = (ps_codec_ctx p, Inr (frame_put ?bs x1))"
    using x1 im(2) by (simp add: gbt32960_reply_eq [OF i data] gbt32960_frame_write_Inr rm)
  have size: "fo_data_size (frame_put ?bs x1) = 25"
    using im(2) by (simp add: frame_put_def gbt32960_frame_parts rm)
  obtain m' where m': "flow_gbt32960_inspect ?v
      (generated_view p (Some (pm_device_id rm)) (frame_put ?bs x1)) METADATA_INIT = Inr m'"
    and host: "turbo_flow_protocol_reply (Some p) (Some f) st (Some x) = (Some p, SALTS_OK,
      Some ((frame_put ?bs x1)\<lparr>fo_metadata := host_filled p DIRECTION_DOWN (pm_device_id rm) m'\<rparr>))"
    using gbt32960.host_reply [OF op(1-3,5) assms(2,3) reply] size assms(5) by auto
  have "pm_message_type m' = ucast ?c"
    using m' gbt32960_inspect_metadata [OF m'] gbt32960_frame_header(3) [of "pm_device_id rm" ?c ?r "[]"] im(2)
    by (auto simp: generated_view_def rm)
  moreover have "ucast (ucast ?c :: u32) = ?c"
    by (rule bit_word_eqI) (auto simp: bit_simps dest: bit_imp_le_length)
  ultimately show ?thesis
    using host rm by (auto simp: host_filled_def flow_gbt32960_response_def)
qed

theorem gbt32960_reply_delivers_witness:
  "\<exists>y. turbo_flow_protocol_reply (Some (plugin_instance FLOW_GBT32960_DESCRIPTOR 64))
     (Some (sample_view (gbt32960_frame 2 0xfe sample_vin [1, 2]))) SALTS_EALREADY
     (Some (sample_output 64)) = (Some (plugin_instance FLOW_GBT32960_DESCRIPTOR 64), SALTS_OK, Some y) \<and>
   take (fo_data_size y) (fo_bytes y) = gbt32960_frame 2 3 sample_vin []"
proof -
  let ?f = "sample_view (gbt32960_frame 2 0xfe sample_vin [1, 2])"
  note op = gbt32960_instance [of 64, simplified]
  have acc: "flow_gbt32960_inspect v ?f METADATA_INIT = Inr (METADATA_INIT\<lparr>pm_device_id := sample_vin,
      pm_message_type := 2, pm_operation := ctext_of ''realtime-data''\<rparr>)" for v
    by (rule sample_frame_accepted) simp
  show ?thesis
    using gbt32960_reply_delivers [OF op sample_inspected [OF op gbt32960_descriptor(1) acc gbt32960_inspect_sound [OF acc]]
        sample_output_valid, of 64 SALTS_EALREADY]
    by (auto simp: sample_vin_ok gbt32960_frame_parts host_filled_def gbt32960_frame_def)
qed

end
