(* ===== verification/Flow_Protocol_Spec.thy ===== *)
theory Flow_Protocol_Spec
  imports Flow_JTT808_Spec Flow_GBT32960
begin

text \<open>
  The properties of the protocol host, for any codec that reports its errors, with witnesses on
  the GB/T 32960 and JT/T 808 services: the wire round trip of commands, the exact overlap test,
  all-or-nothing semantic decoding and segmented replies.
\<close>

unbundle bit_operations_syntax

section \<open>Commands\<close>

lemma gbt32960_codec_reports: "codec_reports (plugin_ops FLOW_GBT32960_DESCRIPTOR)"
proof -
  have w: "reports (flow_gbt32960_frame_write c r d a b x)" for c r d a b x
    unfolding flow_gbt32960_frame_write_def Let_def by (intro reports_if) simp_all
  have i: "reports (flow_gbt32960_inspect v f m)" for v f m
    unfolding flow_gbt32960_inspect_def Let_def
    by (intro reports_if reports_set_operation) simp_all
  have e: "reports (flow_gbt32960_encode v c x)" for v c x
    unfolding flow_gbt32960_encode_def flow_gbt32960_command_def
    by (intro reports_and_then reports_if w) simp_all
  have r: "reports (snd (flow_gbt32960_reply s v f st x))" for s v f st x
    by (simp add: flow_gbt32960_reply_def Let_def w)
  show ?thesis
    by (auto simp: codec_reports_def plugin_ops_def FLOW_GBT32960_DESCRIPTOR_def intro: i e r)
qed

text \<open>C15: Commands round-trip through the wire.  A frame the host publishes for a command is
  accepted by the host's own decoder, whatever the codec: the decoded message carries the frame
  unchanged and the command's operation and device, and its metadata is the one published with
  the frame, with the direction turned.\<close>

theorem protocol_encode_decodes:
  assumes "protocol_wf p" and "codec_reports (ps_ops p)"
    and "turbo_flow_protocol_encode (Some p) (Some c) (Some x) = (SALTS_OK, Some y)"
    and "fo_data_size y \<noteq> 0"
    and "flow_protocol_message_output_reset (Some m) = (SALTS_OK, Some m1)"
    and "fo_data_size y \<le> length (mo_bytes m)"
  shows "\<exists>z. turbo_flow_protocol_decode (Some p) (Some (generated_view p (cv_device_id c) y)) (Some m) =
      (SALTS_OK, Some z) \<and>
    take (mo_payload_size z) (mo_bytes z) = take (fo_data_size y) (fo_bytes y) \<and>
    mo_metadata z = (fo_metadata y)\<lparr>pm_direction := DIRECTION_UP\<rparr> \<and>
    Some (pm_operation (mo_metadata z)) = cv_operation c \<and>
    Some (pm_device_id (mo_metadata z)) = cv_device_id c"
proof -
  let ?f = "generated_view p (cv_device_id c) y"
  note ok = encode_OK [OF assms(1-4)]
  have up: "flow_protocol_inspect (Some p) (Some ?f) DIRECTION_UP =
      Inr ((fo_metadata y)\<lparr>pm_direction := DIRECTION_UP\<rparr>)"
    using ok inspect_direction by blast
  have bytes: "fv_bytes ?f = take (fo_data_size y) (fo_bytes y)"
    and device: "fv_device_id ?f = cv_device_id c"
    by (simp_all add: generated_view_def)
  have dec: "turbo_flow_protocol_decode (Some p) (Some ?f) (Some m) =
      (SALTS_OK, Some (message_publish ?f ((fo_metadata y)\<lparr>pm_direction := DIRECTION_UP\<rparr>) m1))"
    using assms(6) ok by (intro decode_accepted [OF up assms(5)]) (simp add: bytes)
  obtain oper dev where c: "cv_operation c = Some oper" "cv_device_id c = Some dev" "dev \<noteq> []"
    using assms(3)
    by (auto simp: turbo_flow_protocol_encode_def flow_protocol_command_validate_def
        flow_protocol_cstr_segment_valid_def flow_protocol_segment_valid_def
        split: if_splits option.splits prod.splits)
  have "pm_device_id (fo_metadata y) = dev"
    using ok device c finalize_Inr [OF _ assms(1)]
    by (auto simp: inspect_Inr host_filled_def text_given_def dest!: finalize_Inr [OF _ assms(1)])
  then show ?thesis
    using dec ok c(1,2) bytes unfolding c(2) by (simp add: message_publish_def overwrite_def)
qed

definition sample_message :: "nat \<Rightarrow> message_output" where
  "sample_message n = \<lparr>mo_size = ExactSize, mo_abi_version = PROTOCOL_ABI_VERSION, mo_payload = 20480,
     mo_bytes = replicate n 0, mo_payload_size = 0, mo_metadata = METADATA_INIT\<rparr>"

lemma sample_message_valid:
  "flow_protocol_message_output_reset (Some (sample_message n)) = (SALTS_OK, Some (sample_message n))"
  by (simp add: flow_protocol_message_output_reset_def sample_message_def)

abbreviation gbt32960_sample :: "unit protocol" where
  "gbt32960_sample \<equiv> plugin_instance FLOW_GBT32960_DESCRIPTOR 64"

lemma gbt32960_sample_encoded:
  "\<exists>y. turbo_flow_protocol_encode (Some gbt32960_sample)
     (Some (sample_command sample_vin ''heartbeat'' 0 [9])) (Some (sample_output 64)) = (SALTS_OK, Some y) \<and>
   fo_data_size y = 26"
proof -
  let ?c = "sample_command sample_vin ''heartbeat'' 0 [9]"
  let ?y = "frame_put (gbt32960_frame 7 0xfe sample_vin [9]) (sample_output 64)"
  note op = gbt32960_opened [OF gbt32960_instance [of 64, simplified]]
  have c: "flow_protocol_command_validate (Some gbt32960_sample) (Some ?c) = SALTS_OK"
    by (rule sample_command_valid) (simp_all add: sample_vin_ok name_ok_def ctext_of_def plain_def)
  have enc: "flow_gbt32960_encode v ?c (sample_output 64) = Inr ?y" for v
    using gbt32960_frame_write_Inr [of 7 "0xfe" "Some sample_vin" "cv_payload ?c" "[9]" "sample_output 64" ?y]
    by (simp add: flow_gbt32960_encode_def flow_gbt32960_command_def ctext_of_def sample_vin_ok)
  have size: "fo_data_size ?y = 26"
    by (simp add: frame_put_def gbt32960_frame_parts sample_vin_ok)
  show ?thesis
    using gbt32960.host_encode [OF op(1,2,4,6) c _ _ sample_vin_ok(4) sample_output_valid [of 64]] size
    by (auto simp: enc)
qed

theorem protocol_encode_decodes_witness:
  "\<exists>y z. turbo_flow_protocol_encode (Some gbt32960_sample)
     (Some (sample_command sample_vin ''heartbeat'' 0 [9])) (Some (sample_output 64)) = (SALTS_OK, Some y) \<and>
   turbo_flow_protocol_decode (Some gbt32960_sample) (Some (generated_view gbt32960_sample (Some sample_vin) y))
     (Some (sample_message 64)) = (SALTS_OK, Some z) \<and>
   pm_operation (mo_metadata z) = ctext_of ''heartbeat'' \<and> pm_device_id (mo_metadata z) = sample_vin"
proof -
  obtain y where y: "turbo_flow_protocol_encode (Some gbt32960_sample)
     (Some (sample_command sample_vin ''heartbeat'' 0 [9])) (Some (sample_output 64)) = (SALTS_OK, Some y)"
    "fo_data_size y = 26" using gbt32960_sample_encoded by blast
  have "codec_reports (ps_ops gbt32960_sample)" by (simp add: gbt32960_codec_reports)
  from protocol_encode_decodes [OF gbt32960_opened(1) [OF gbt32960_instance] this y(1) _ sample_message_valid [of 64]]
  show ?thesis using y by (auto simp: sample_message_def)
qed

section \<open>Buffers\<close>

text \<open>C21: The overlap test on the caller's buffers is exact.  Two ranges it lets pass share no
  byte, and for non-NULL ranges that do not wrap around the address space it rejects only pairs
  that do share one.\<close>

theorem ranges_overlap_exact:
  "(\<not> flow_protocol_ranges_overlap l ls r rs \<longrightarrow>
      {unat l ..< unat l + unat ls} \<inter> {unat r ..< unat r + unat rs} = {}) \<and>
   (l \<noteq> 0 \<and> r \<noteq> 0 \<and> unat l + unat ls < 2 ^ 64 \<and> unat r + unat rs < 2 ^ 64 \<and>
    flow_protocol_ranges_overlap l ls r rs \<longrightarrow>
      {unat l ..< unat l + unat ls} \<inter> {unat r ..< unat r + unat rs} \<noteq> {})"
proof -
  have zero: "x = 0 \<longleftrightarrow> unat x = 0" for x :: u64 by (simp add: unat_eq_0)
  have wrap: "s > UINT64_MAX - a \<longleftrightarrow> \<not> unat s + unat a < 2 ^ 64" for s a :: u64
    using add_fits_iff [where x = s and y = a] by blast
  have meet: "{a ..< a + n} \<inter> {b ..< b + k} = {} \<longleftrightarrow> n = 0 \<or> k = 0 \<or> \<not> (a < b + k \<and> b < a + n)"
    for a b n k :: nat by (auto simp: disjoint_iff)
  have lt: "unat (a + s) = unat a + unat s" if "unat s + unat a < 2 ^ 64" for a s :: u64
    using that by (intro unat_add_bounded) simp
  show ?thesis
    unfolding flow_protocol_ranges_overlap_def wrap meet
    using lt by (auto simp: zero word_less_nat_alt add.commute)
qed

theorem ranges_overlap_exact_witness:
  "\<not> flow_protocol_ranges_overlap 100 20 120 8 \<and> flow_protocol_ranges_overlap 100 20 119 8 \<and>
   {unat (100::u64) ..< unat (100::u64) + unat (20::u64)} \<inter>
     {unat (120::u64) ..< unat (120::u64) + unat (8::u64)} = {} \<and>
   {unat (100::u64) ..< unat (100::u64) + unat (20::u64)} \<inter>
     {unat (119::u64) ..< unat (119::u64) + unat (8::u64)} \<noteq> {}"
proof -
  have a: "\<not> flow_protocol_ranges_overlap 100 20 120 8"
    by (simp add: flow_protocol_ranges_overlap_def word_less_nat_alt)
  have b: "flow_protocol_ranges_overlap 100 20 119 8"
    by (simp add: flow_protocol_ranges_overlap_def word_less_nat_alt)
  show ?thesis
    using ranges_overlap_exact [of 100 20 120 8] ranges_overlap_exact [of 100 20 119 8] a b by simp
qed

section \<open>Semantic decoding\<close>

text \<open>C19: Semantic decoding publishes all or nothing.  With two well-formed outputs a failed call
  leaves both published sizes zero; a successful one has copied the frame unchanged, kept the
  caller's buffer and published no more than its capacity.\<close>

theorem decode_semantic_outcome:
  assumes "codec_reports (ps_ops p)"
    and "flow_protocol_message_output_reset (Some m) = (SALTS_OK, Some m1)"
    and "flow_protocol_semantic_output_reset (Some s) = (SALTS_OK, Some s1)"
    and "turbo_flow_protocol_decode_semantic (Some p) (Some f) (Some m) (Some s) = (rc, Some m', Some s')"
  shows "rc \<noteq> SALTS_OK \<and> mo_payload_size m' = 0 \<and> so_data_size s' = 0 \<or>
    rc = SALTS_OK \<and> take (mo_payload_size m') (mo_bytes m') = fv_bytes f \<and>
      so_data s' = so_data s \<and> length (so_bytes s') = length (so_bytes s) \<and>
      so_data_size s' \<le> length (so_bytes s)"
proof -
  have zero: "mo_payload_size m1 = 0" "so_data_size s1 = 0" "so_data s1 = so_data s"
    "so_bytes s1 = so_bytes s"
    using assms(2,3)
    by (auto simp: message_output_reset_OK flow_protocol_semantic_output_reset_def split: if_splits)
  show ?thesis
  proof (cases "rc = SALTS_OK")
    case True
    have "co_decode_semantic (ps_ops p) \<noteq> None"
      using assms(2-4) True by (auto simp: turbo_flow_protocol_decode_semantic_def split: if_splits)
    then have "flow_protocol_semantic_call p f m1 s1 \<noteq> Inl SALTS_OK"
      using reports_semantic_call [OF assms(1)] by (simp add: reports_def)
    then have "flow_protocol_semantic_call p f m1 s1 = Inr (m', s')"
      using assms(2-4) True
      by (auto simp: turbo_flow_protocol_decode_semantic_def split: if_splits sum.splits prod.splits)
    then show ?thesis using semantic_call_Inr zero True by metis
  next
    case False
    then have "m' = m1 \<and> s' = s1"
      using assms(2-4)
      by (auto simp: turbo_flow_protocol_decode_semantic_def split: if_splits sum.splits prod.splits)
    then show ?thesis using zero False by simp
  qed
qed

lemma ranges_apart:
  assumes "unat l + unat ls < 2 ^ 64" and "unat r + unat rs < 2 ^ 64" and "l \<noteq> 0" and "r \<noteq> 0"
    and "unat l + unat ls \<le> unat r \<or> unat r + unat rs \<le> unat l"
  shows "\<not> flow_protocol_ranges_overlap l ls r rs"
proof -
  have "unat (l + ls) = unat l + unat ls" "unat (r + rs) = unat r + unat rs"
    using assms(1,2) by (auto intro!: unat_add_bounded)
  moreover have "\<not> ls > UINT64_MAX - l" "\<not> rs > UINT64_MAX - r"
    using assms(1,2) add_fits_iff [where x = ls and y = l] add_fits_iff [where x = rs and y = r]
    by (simp_all add: add.commute)
  ultimately show ?thesis
    using assms(3-5) by (auto simp: flow_protocol_ranges_overlap_def word_less_nat_alt)
qed

lemma semantic_reset_OK:
  "flow_protocol_semantic_output_reset (Some s) = (SALTS_OK, y) \<longleftrightarrow>
     so_size s \<noteq> ShortSize \<and> so_abi_version s = PROTOCOL_ABI_VERSION \<and>
     (so_data s \<noteq> 0 \<or> so_bytes s = []) \<and>
     y = Some (s\<lparr>so_data_size := 0, so_semantic_type := PROTOCOL_SEMANTIC_TYPE_NONE, so_media_type := []\<rparr>)"
  by (auto simp: flow_protocol_semantic_output_reset_def)

abbreviation jtt808_sample :: "u32 option protocol" where
  "jtt808_sample \<equiv> plugin_instance (FLOW_JTT808_DESCRIPTOR sample_lib) 64"

theorem decode_semantic_outcome_witness:
  "\<exists>m' s'. turbo_flow_protocol_decode_semantic (Some jtt808_sample) (Some (sample_view [0]))
     (Some (sample_message 64)) (Some (sample_semantic\<lparr>so_data_size := 5\<rparr>)) =
     (SALTS_EPROTO, Some m', Some s') \<and> mo_payload_size m' = 0 \<and> so_data_size s' = 0"
proof -
  let ?s = "sample_semantic\<lparr>so_data_size := 5\<rparr>"
  let ?s1 = "?s\<lparr>so_data_size := 0, so_semantic_type := PROTOCOL_SEMANTIC_TYPE_NONE, so_media_type := []\<rparr>"
  have s: "flow_protocol_semantic_output_reset (Some ?s) = (SALTS_OK, Some ?s1)"
    by (simp add: semantic_reset_OK sample_semantic_def)
  have rep: "codec_reports (ps_ops jtt808_sample)" by (simp add: jtt808_codec_reports)
  have valid: "flow_protocol_frame_validate (Some jtt808_sample) (Some (sample_view [0])) = SALTS_OK"
    by (simp add: frame_validate_OK sample_view_def FRAME_VIEW_INIT_def text_given_def)
  have call: "flow_protocol_semantic_call jtt808_sample (sample_view [0]) (sample_message 64) ?s1 =
      Inl SALTS_EPROTO"
    by (simp add: flow_protocol_semantic_call_def sample_message_def sample_semantic_def
        flow_protocol_ranges_overlap_def plugin_ops_def FLOW_JTT808_DESCRIPTOR_def
        flow_jtt808_decode_semantic_def flow_jtt808_decode_ingress_def sample_view_def
        FRAME_VIEW_INIT_def word_less_nat_alt)
  have run: "turbo_flow_protocol_decode_semantic (Some jtt808_sample) (Some (sample_view [0]))
      (Some (sample_message 64)) (Some ?s) = (SALTS_EPROTO, Some (sample_message 64), Some ?s1)"
    using s valid call sample_message_valid [of 64]
    by (simp add: turbo_flow_protocol_decode_semantic_def plugin_instance_def plugin_ops_def
        FLOW_JTT808_DESCRIPTOR_def)
  show ?thesis
    using decode_semantic_outcome [OF rep sample_message_valid s run] run by simp
qed

text \<open>The contract says that both sizes are zero after any failure.  With an unusable raw output the
  call returns before it touches the semantic one, which keeps the size of an earlier call.\<close>

lemma decode_semantic_stale:
  assumes "mo_payload m = 0"
  shows "turbo_flow_protocol_decode_semantic p f (Some m) (Some s) = (SALTS_EINVAL, Some m, Some s)"
  using assms by (simp add: turbo_flow_protocol_decode_semantic_def flow_protocol_message_output_reset_def)

lemma jtt808_written_device:
  assumes "flow_jtt808_frame_write i (Some dev) v2019 serial body bytes x = Inr y"
  shows "dev \<noteq> []"
  using frame_write_Inr [OF assms] by (auto simp: flow_jtt808_frame_header_def Let_def split: if_splits)

text \<open>C12: Transparent data reaches the application.  For a frame that carries content of a type for
  a device, an instance of the JT/T 808 service with room in two separate buffers returns both
  the frame unchanged and exactly that content, its type and media type, and metadata that names
  the device, the operation and the serial.\<close>

theorem jtt808_semantic_delivers:
  assumes "opened (FLOW_JTT808_DESCRIPTOR lib) p"
    and "flow_jtt808_frame_write 0x0900 (Some dev) v2019 serial body (ty # cs) x = Inr y"
    and "flow_protocol_frame_validate (Some p) (Some f) = SALTS_OK"
    and "fv_bytes f = take (fo_data_size y) (fo_bytes y)" and "fv_device_id f \<in> {None, Some [], Some dev}"
    and "flow_protocol_message_output_reset (Some m) = (SALTS_OK, Some m1)"
    and "flow_protocol_semantic_output_reset (Some s) = (SALTS_OK, Some s1)" and "so_data s \<noteq> 0"
    and "fo_data_size y \<le> length (mo_bytes m)" and "length cs \<le> length (so_bytes s)"
    and "\<not> flow_protocol_ranges_overlap (mo_payload m) (of_nat (length (mo_bytes m)))
           (so_data s) (of_nat (length (so_bytes s)))"
    and "\<not> flow_protocol_ranges_overlap (fv_data f) (of_nat (length (fv_bytes f)))
           (so_data s) (of_nat (length (so_bytes s)))"
  shows "\<exists>m' s'. turbo_flow_protocol_decode_semantic (Some p) (Some f) (Some m) (Some s) =
      (SALTS_OK, Some m', Some s') \<and>
    take (mo_payload_size m') (mo_bytes m') = fv_bytes f \<and>
    take (so_data_size s') (so_bytes s') = cs \<and> so_semantic_type s' = ucast ty \<and>
    so_media_type s' = (if ty = 1 then ctext_of ''application/json'' else []) \<and>
    pm_device_id (mo_metadata m') = dev \<and> pm_sequence (mo_metadata m') = ucast serial \<and>
    pm_operation (mo_metadata m') = ctext_of ''transparent-data''"
proof -
  let ?v = "ps_protocol_version p"
  let ?md = "METADATA_INIT\<lparr>pm_device_id := dev, pm_message_type := 0x0900,
    pm_sequence := ucast serial, pm_operation := ctext_of ''transparent-data''\<rparr>"
  have p: "protocol_wf p" "co_decode_semantic (ps_ops p) = Some flow_jtt808_decode_semantic"
    using assms(1) by (simp_all add: opened_def plugin_ops_def FLOW_JTT808_DESCRIPTOR_def)
  then have "ps_open p" by (simp add: protocol_wf_def)
  have data: "fv_data f \<noteq> 0" using assms(3) by (simp add: frame_validate_OK)
  have m1: "mo_bytes m1 = mo_bytes m" "mo_payload m1 = mo_payload m"
    using assms(6) by (auto simp: message_output_reset_OK)
  have s1: "so_bytes s1 = so_bytes s" "so_data s1 = so_data s" "so_size s1 \<noteq> ShortSize"
    "so_abi_version s1 = PROTOCOL_ABI_VERSION"
    using assms(7) by (auto simp: semantic_reset_OK)
  let ?s2 = "s1\<lparr>so_bytes := overwrite cs (so_bytes s1), so_semantic_type := ucast ty,
    so_data_size := length cs, so_media_type := (if ty = 1 then ctext_of ''application/json'' else [])\<rparr>"
  have dec: "flow_jtt808_decode_semantic ?v f METADATA_INIT s1 = Inr (?md, ?s2)"
    using jtt808_written_content [OF assms(2) data assms(4)] s1 assms(8,10) by simp
  have oper: "jtt808_operation 0x0900 = Some ''transparent-data''" by (simp add: jtt808_operation_def)
  have "flow_jtt808_inspect ?v f METADATA_INIT = Inr ?md"
    using jtt808_written_frame [OF assms(2) oper jtt808_operation_ok [OF oper], of ?v] data assms(4) by auto
  then have sound: "metadata_sound ?md" by (rule jtt808_inspect_sound)
  have dev: "dev \<noteq> []" by (rule jtt808_written_device [OF assms(2)])
  have fin: "flow_protocol_metadata_finalize p f DIRECTION_UP ?md = Inr (host_filled p DIRECTION_UP dev ?md)"
    using sound p(1) dev assms(5)
    by (intro finalize_sound) (auto simp: metadata_sound_def text_given_def)
  have "flow_protocol_semantic_call p f m1 s1 =
      Inr (message_publish f (host_filled p DIRECTION_UP dev ?md) m1, ?s2)"
    using dec fin p(2) assms(4,9-12) m1 s1
    by (auto simp: flow_protocol_semantic_call_def semantic_unchanged_def overwrite_def ctext_of_def
        protocol_limits PROTOCOL_SEMANTIC_MEDIA_TYPE_MAX_def)
  then have "turbo_flow_protocol_decode_semantic (Some p) (Some f) (Some m) (Some s) =
      (SALTS_OK, Some (message_publish f (host_filled p DIRECTION_UP dev ?md) m1), Some ?s2)"
    using assms(3,6,7) p(2) \<open>ps_open p\<close> by (simp add: turbo_flow_protocol_decode_semantic_def)
  then show ?thesis by (simp add: message_publish_def overwrite_def host_filled_def)
qed

theorem jtt808_semantic_delivers_witness:
  "\<exists>f m' s'. turbo_flow_protocol_decode_semantic (Some jtt808_sample) (Some (sample_view f))
     (Some (sample_message 64)) (Some sample_semantic) = (SALTS_OK, Some m', Some s') \<and>
   take (so_data_size s') (so_bytes s') = [0x7b, 0x7d] \<and> so_media_type s' = ctext_of ''application/json'' \<and>
   pm_device_id (mo_metadata m') = sample_phone"
proof -
  obtain y where y: "flow_jtt808_frame_write 0x0900 (Some sample_phone) True 7 1 [1, 0x7b, 0x7d]
      (sample_output 64) = Inr y" "fo_data_size y \<le> 44" using sample_frame by blast
  let ?f = "sample_view (take (fo_data_size y) (fo_bytes y))"
  let ?s1 = "sample_semantic\<lparr>so_data_size := 0, so_semantic_type := PROTOCOL_SEMANTIC_TYPE_NONE,
    so_media_type := []\<rparr>"
  have s: "flow_protocol_semantic_output_reset (Some sample_semantic) = (SALTS_OK, Some ?s1)"
    by (simp add: semantic_reset_OK sample_semantic_def)
  have f: "flow_protocol_frame_validate (Some jtt808_sample) (Some ?f) = SALTS_OK"
    using sample_inspected_phone(2) [OF y(1)] y(2) by (auto simp: inspect_Inr)
  have size: "unat (word_of_nat (length (fv_bytes ?f)) :: u64) \<le> 44"
    using y(2) by (simp add: unat_of_nat)
  have far: "\<not> flow_protocol_ranges_overlap (fv_data ?f) (of_nat (length (fv_bytes ?f)))
      (so_data sample_semantic) (of_nat (length (so_bytes sample_semantic)))"
    "\<not> flow_protocol_ranges_overlap (mo_payload (sample_message 64))
      (of_nat (length (mo_bytes (sample_message 64))))
      (so_data sample_semantic) (of_nat (length (so_bytes sample_semantic)))"
    by (rule ranges_apart; use size in \<open>simp add: sample_message_def sample_semantic_def sample_view_def
      FRAME_VIEW_INIT_def\<close>)+
  show ?thesis
    using jtt808_semantic_delivers [OF jtt808_instance y(1) f _ _ sample_message_valid s _ _ _ far(2,1)] y(2)
    by (auto simp: sample_message_def sample_semantic_def)
qed

section \<open>Segmented replies\<close>



lemma sample_slices_ready: "slices_ready sample_slices (replicate 5 EMPTY_SLICE)"
  by (simp add: slices_ready_def sample_slices_def PROTOCOL_REPLY_VECTOR_MAX_SEGMENTS_def)


lemma segments_total_valid:
  "\<forall>s \<in> set ss. flow_protocol_reply_slice_valid s \<Longrightarrow> n + sum_list (map ms_length ss) \<le> unat SIZE_MAX \<Longrightarrow>
     segments_total n ss = Some (n + sum_list (map ms_length ss))"
  by (induction ss arbitrary: n) auto

lemma jtt808_reply_slices_succeeds:
  assumes d: "jtt808_accepted f d" "bcd_digits (jtt808_phone d) = Inr dev"
    and n: "flow_jtt808_next_serial (Some n) = (c, serial)"
    and lib: "mem_lib_law lib" "\<And>i k. ml_get lib i k"
    and x: "sl_segments x = Some ss" "sl_metadata x = METADATA_INIT" "5 \<le> length ss"
  shows "\<exists>z h us. flow_jtt808_reply_slices lib (Some n) v f st x = (c, Inr z) \<and>
    z = (slices_put us x)\<lparr>sl_metadata := METADATA_INIT\<lparr>pm_message_type := 0x8001,
        pm_sequence := ucast serial, pm_device_id := dev, pm_operation := ctext_of ''platform-ack''\<rparr>\<rparr> \<and>
    concat (map slice_bytes us) = jtt808_frame h (jtt808_ack_body d st) \<and>
    sum_list (map ms_length us) = length (jtt808_frame h (jtt808_ack_body d st)) \<and>
    (\<forall>s \<in> set us. flow_protocol_reply_slice_valid s) \<and>
    length (jtt808_frame h (jtt808_ack_body d st)) \<le> 48 \<and> us \<noteq> []"
proof -
  note prep = jtt808_prepared [OF d n, of st]
  let ?body = "jtt808_ack_body d st" and ?ver = "jtt808_version_2019 d"
  obtain y where y: "flow_jtt808_frame_write 0x8001 (Some dev) ?ver serial 1 ?body (sample_output 64) = Inr y"
    "fo_data_size y \<le> 48"
    using jtt808_reply_succeeds [OF d n, of "sample_output 64" v st] prep
    by (auto simp: flow_jtt808_reply_def)
  obtain h where h: "flow_jtt808_frame_header 0x8001 (Some dev) ?ver serial (length ?body) 17 = Inr h"
    "length (jtt808_frame h ?body) \<le> 48"
    using frame_write_Inr [OF y(1)] y(2) by (auto simp: frame_put_def)
  obtain z where z: "flow_jtt808_frame_slices_write lib 0x8001 (Some dev) ?ver serial 1 ?body x = Inr z"
    using frame_slices_write_succeeds [OF lib h(1) _ x(1,3), of 1] by auto
  obtain us where us: "z = slices_put us x" "concat (map slice_bytes us) = jtt808_frame h ?body"
    "sum_list (map ms_length us) = length (jtt808_frame h ?body)"
    "\<forall>s \<in> set us. flow_protocol_reply_slice_valid s"
    using frame_slices_write_Inr [OF z lib(1)] h(1) by auto
  then have "us \<noteq> []" by (auto simp: jtt808_frame_def)
  moreover have "sl_metadata (slices_put us x) = METADATA_INIT" using x(2) by (simp add: slices_put_def)
  ultimately show ?thesis
    using prep z us h(2) by (intro exI [of _ h] exI [of _ us] exI) (auto simp: flow_jtt808_reply_slices_def)
qed

lemma reply_slices_accepted:
  assumes "slices_ready x ss" and "co_reply_slices (ps_ops p) = Some g"
    and "ps_capabilities p AND CAP_PROTOCOL_REPLY \<noteq> 0"
    and "flow_protocol_inspect (Some p) (Some f) DIRECTION_UP = Inr rm"
    and "g (ps_codec_ctx p) (ps_protocol_version p) f st
      (x\<lparr>sl_segment_count := 0, sl_data_size := 0, sl_metadata := METADATA_INIT\<rparr>) = (ctx, Inr z)"
    and "flow_protocol_slices_check (p\<lparr>ps_codec_ctx := ctx\<rparr>) f rm z = (rc, Some y)"
  shows "turbo_flow_protocol_reply_slices (Some p) (Some f) st (Some x) =
    (Some (p\<lparr>ps_codec_ctx := ctx\<rparr>), rc, Some y)"
  using assms
  by (auto simp: turbo_flow_protocol_reply_slices_def slices_ready_def EMPTY_SLICE_def Let_def)

text \<open>C13: Settled requests can be acknowledged in segments.  To a request it accepts, given five
  empty slots and buffers from the pool, an instance of the JT/T 808 service publishes slices
  that concatenate to one acknowledgement frame; its body repeats the serial and the identifier
  of the request, followed by the result code.\<close>

theorem jtt808_reply_slices_delivers:
  assumes "opened (FLOW_JTT808_DESCRIPTOR lib) p" and "ps_codec_ctx p = Some n"
    and "mem_lib_law lib" and "\<And>i k. ml_get lib i k"
    and "flow_protocol_inspect (Some p) (Some f) DIRECTION_UP = Inr rm"
    and "slices_ready x ss" and "5 \<le> length ss" and "48 \<le> ps_max_frame_size p"
  shows "\<exists>q y h. turbo_flow_protocol_reply_slices (Some p) (Some f) st (Some x) = (q, SALTS_OK, Some y) \<and>
    concat (map slice_bytes (take (sl_segment_count y) (the (sl_segments y)))) = jtt808_frame h
      [hi8 (ucast (pm_sequence rm)), lo8 (ucast (pm_sequence rm)),
       hi8 (ucast (pm_message_type rm)), lo8 (ucast (pm_message_type rm)), jtt808_result st] \<and>
    pm_device_id (sl_metadata y) = pm_device_id rm \<and>
    pm_operation (sl_metadata y) = ctext_of ''platform-ack''"
proof -
  let ?v = "ps_protocol_version p" and ?dev = "pm_device_id rm"
  let ?x1 = "x\<lparr>sl_segment_count := 0, sl_data_size := 0, sl_metadata := METADATA_INIT\<rparr>"
  have op: "protocol_wf p" "ps_capabilities p AND CAP_PROTOCOL_REPLY \<noteq> 0"
    "co_reply_slices (ps_ops p) = Some (flow_jtt808_reply_slices lib)"
    using assms(1) by (simp_all add: opened_def plugin_ops_def FLOW_JTT808_DESCRIPTOR_def)
  obtain d where d: "jtt808_accepted f d" "bcd_digits (jtt808_phone d) = Inr ?dev"
    and dev: "segment_ok ?dev PROTOCOL_DEVICE_ID_MAX"
      "text_given (fv_device_id f) \<longrightarrow> fv_device_id f = Some ?dev"
    and ack: "\<forall>st. jtt808_ack_body d st = [hi8 (ucast (pm_sequence rm)), lo8 (ucast (pm_sequence rm)),
      hi8 (ucast (pm_message_type rm)), lo8 (ucast (pm_message_type rm)), jtt808_result st]"
    using jtt808_request_read [OF assms(1,5)] by blast
  obtain c serial where n: "flow_jtt808_next_serial (Some n) = (c, serial)" by fastforce
  have x: "sl_segments ?x1 = Some ss" "sl_metadata ?x1 = METADATA_INIT"
    using assms(6) by (simp_all add: slices_ready_def)
  obtain z h us where z: "flow_jtt808_reply_slices lib (Some n) ?v f st ?x1 = (c, Inr z)"
    and us: "z = (slices_put us ?x1)\<lparr>sl_metadata := METADATA_INIT\<lparr>pm_message_type := 0x8001,
        pm_sequence := ucast serial, pm_device_id := ?dev, pm_operation := ctext_of ''platform-ack''\<rparr>\<rparr>"
      "concat (map slice_bytes us) = jtt808_frame h (jtt808_ack_body d st)"
      "sum_list (map ms_length us) = length (jtt808_frame h (jtt808_ack_body d st))"
      "\<forall>s \<in> set us. flow_protocol_reply_slice_valid s"
    and le: "length (jtt808_frame h (jtt808_ack_body d st)) \<le> 48" and "us \<noteq> []"
    using jtt808_reply_slices_succeeds [OF d n assms(3,4) x assms(7), of ?v st] by blast
  let ?md = "sl_metadata z" and ?q = "p\<lparr>ps_codec_ctx := c\<rparr>"
  have fin: "flow_protocol_metadata_finalize ?q f DIRECTION_DOWN ?md =
      Inr (host_filled ?q DIRECTION_DOWN ?dev ?md)"
    using op(1) dev segment_ok_nonempty [OF dev(1)]
    by (intro finalize_sound) (auto simp: us(1) metadata_sound_def METADATA_INIT_def segment_ok_iff
        protocol_limits ctext_of_def plain_def)
  have total: "segments_total 0 us = Some (sl_data_size z)"
    using segments_total_valid [OF us(4), of 0] us(3) le by (simp add: us(1) slices_put_def unat_UINT64_MAX)
  have size: "0 < sl_data_size z" "sl_data_size z \<le> ps_max_frame_size p"
    using le assms(8) us(3) by (simp_all add: us(1) slices_put_def jtt808_frame_def)
  have segs: "take (sl_segment_count z) (the (sl_segments z)) = us" "sl_segment_count z \<noteq> 0"
    "sl_segment_count z \<le> length (the (sl_segments z))"
    using \<open>us \<noteq> []\<close> by (simp_all add: us(1) slices_put_def)
  have check: "flow_protocol_slices_check ?q f rm z =
      (SALTS_OK, Some (z\<lparr>sl_metadata := host_filled ?q DIRECTION_DOWN ?dev ?md\<rparr>))"
    using segs total size fin by (simp add: flow_protocol_slices_check_def Let_def)
  have "turbo_flow_protocol_reply_slices (Some p) (Some f) st (Some x) =
      (Some ?q, SALTS_OK, Some (z\<lparr>sl_metadata := host_filled ?q DIRECTION_DOWN ?dev ?md\<rparr>))"
    using reply_slices_accepted [OF assms(6) op(3,2) assms(5)] z check assms(2) by simp
  then show ?thesis
    using segs(1) us(2) ack by (auto simp: host_filled_def us(1))
qed

theorem jtt808_reply_slices_delivers_witness:
  "\<exists>f q y h. turbo_flow_protocol_reply_slices (Some jtt808_sample) (Some (sample_view f)) SALTS_OK
     (Some sample_slices) = (q, SALTS_OK, Some y) \<and>
   concat (map slice_bytes (take (sl_segment_count y) (the (sl_segments y)))) = jtt808_frame h [0, 7, 9, 0, 0]"
proof -
  obtain y where y: "flow_jtt808_frame_write 0x0900 (Some sample_phone) True 7 1 [1, 0x7b, 0x7d]
      (sample_output 64) = Inr y" "fo_data_size y \<le> 64" using sample_frame by force
  obtain rm where rm: "flow_protocol_inspect (Some jtt808_sample)
      (Some (sample_view (take (fo_data_size y) (fo_bytes y)))) DIRECTION_UP = Inr rm"
    "pm_sequence rm = 7" "pm_message_type rm = 0x0900"
    using sample_inspected_phone(2) [OF y] by blast
  have ctx: "ps_codec_ctx jtt808_sample = Some 1" by (simp add: FLOW_JTT808_DESCRIPTOR_def)
  have low: "(2304 :: u8) = 0" by code_simp
  have grants: "ml_get sample_lib i k" for i k by (simp add: sample_lib_def)
  show ?thesis
    using jtt808_reply_slices_delivers [OF jtt808_instance ctx sample_lib_law grants rm(1)
        sample_slices_ready, where st = SALTS_OK] rm(2,3)
    by (auto simp: hi8_def lo8_def jtt808_result_def low)
qed

end
