(* ===== verification/Spec2Isabelle.thy ===== *)
theory Spec2Isabelle
  imports Flow_Content Flow_Inbox_Spec Flow_Protocol_Spec
begin

text \<open>
  A verification development for turbo-flow.
\<close>

end
